theory Spec2Isabelle
  imports Main "HOL-Library.Char_ord" "HOL-Library.List_Lexorder"
begin

section \<open>The backup tool of \<^verbatim>\<open>main.go\<close>\<close>

text \<open>
  The program reads a YAML configuration, runs \<^verbatim>\<open>pg_dump\<close> once and then on every tick
  of a ticker, and after each successful dump removes the files of the output directory
  that are older than the retention window.

  Go strings are byte strings (\<open>string\<close>), Go errors are their messages
  (\<open>string option\<close>, \<open>None\<close> for \<^verbatim>\<open>nil\<close>), and a function returning
  \<^verbatim>\<open>(T, error)\<close> returns \<open>string + T\<close>. Go's \<^verbatim>\<open>int\<close> fields are integers in the
  64-bit range (of a 64-bit platform); where the program and \<^verbatim>\<open>time.Date\<close> compute
  with them, in the negation of the retention days (\<open>go_neg\<close>) and in the count of days and
  seconds, the wrap-around is written out.
\<close>

subsection \<open>Configuration\<close>

record database_config =
  Host :: string
  Port :: int
  Name :: string
  User :: string
  Password :: string

record backup_config =
  OutputDir :: string
  Frequency :: int \<comment> \<open>a \<^verbatim>\<open>time.Duration\<close>: nanoseconds\<close>
  Retention :: int
  Format :: string

record logging_config =
  Level :: string
  FilePath :: string

record config =
  Database :: database_config
  Backup :: backup_config
  Logging :: logging_config

text \<open>
  What \<^verbatim>\<open>yaml.Unmarshal\<close> finds in the file: every key of the three sections is present
  with a value or absent. Unmarshalling into the zero-valued \<^verbatim>\<open>var config Config\<close> sets the
  fields whose keys are present and leaves the others at Go's zero value (\<^verbatim>\<open>""\<close>,
  \<^verbatim>\<open>0\<close>).
\<close>

record yaml_doc =
  yaml_host :: "string option"
  yaml_port :: "int option"
  yaml_name :: "string option"
  yaml_user :: "string option"
  yaml_password :: "string option"
  yaml_output_dir :: "string option"
  yaml_frequency :: "int option"
  yaml_retention_days :: "int option"
  yaml_format :: "string option"
  yaml_level :: "string option"
  yaml_file_path :: "string option"

definition string_or_zero :: "string option \<Rightarrow> string" where
  "string_or_zero v = (case v of None \<Rightarrow> [] | Some s \<Rightarrow> s)"

definition int_or_zero :: "int option \<Rightarrow> int" where
  "int_or_zero v = (case v of None \<Rightarrow> 0 | Some i \<Rightarrow> i)"

definition Unmarshal :: "yaml_doc \<Rightarrow> config" where
  "Unmarshal doc =
     \<lparr>Database =
        \<lparr>Host = string_or_zero (yaml_host doc),
         Port = int_or_zero (yaml_port doc),
         Name = string_or_zero (yaml_name doc),
         User = string_or_zero (yaml_user doc),
         Password = string_or_zero (yaml_password doc)\<rparr>,
      Backup =
        \<lparr>OutputDir = string_or_zero (yaml_output_dir doc),
         Frequency = int_or_zero (yaml_frequency doc),
         Retention = int_or_zero (yaml_retention_days doc),
         Format = string_or_zero (yaml_format doc)\<rparr>,
      Logging =
        \<lparr>Level = string_or_zero (yaml_level doc),
         FilePath = string_or_zero (yaml_file_path doc)\<rparr>\<rparr>"

text \<open>The four \<^verbatim>\<open>if\<close> statements under \<^verbatim>\<open>// Set defaults\<close>, in the order of the source.\<close>

definition set_defaults :: "config \<Rightarrow> config" where
  "set_defaults config0 =
     (let config1 =
            (if Host (Database config0) = []
             then config0\<lparr>Database := (Database config0)\<lparr>Host := ''localhost''\<rparr>\<rparr>
             else config0);
          config2 =
            (if Port (Database config1) = 0
             then config1\<lparr>Database := (Database config1)\<lparr>Port := 5432\<rparr>\<rparr>
             else config1);
          config3 =
            (if Format (Backup config2) = []
             then config2\<lparr>Backup := (Backup config2)\<lparr>Format := ''custom''\<rparr>\<rparr>
             else config2);
          config4 =
            (if Retention (Backup config3) = 0
             then config3\<lparr>Backup := (Backup config3)\<lparr>Retention := 7\<rparr>\<rparr>
             else config3)
      in config4)"

text \<open>
  \<^verbatim>\<open>loadConfig\<close>: \<open>readFile\<close> is \<^verbatim>\<open>os.ReadFile\<close> and \<open>parse\<close> is the YAML parser, each
  with its error.
\<close>

definition loadConfig ::
  "(string \<Rightarrow> string + string) \<Rightarrow> (string \<Rightarrow> string + yaml_doc) \<Rightarrow> string \<Rightarrow> string + config"
where
  "loadConfig readFile parse configPath =
     (case readFile configPath of
        Inl err \<Rightarrow> Inl (''failed to read config file: '' @ err)
      | Inr data \<Rightarrow>
          (case parse data of
             Inl err \<Rightarrow> Inl (''failed to parse config: '' @ err)
           | Inr doc \<Rightarrow> Inr (set_defaults (Unmarshal doc))))"

subsection \<open>Decimal numbers and paths\<close>

text \<open>The decimal digit \<open>d < 10\<close> as a character.\<close>

definition digit_char :: "nat \<Rightarrow> char" where
  "digit_char d = ''0123456789'' ! d"

fun digits_of_nat :: "nat \<Rightarrow> string" where
  "digits_of_nat n =
     (if n < 10 then [digit_char n]
      else digits_of_nat (n div 10) @ [digit_char (n mod 10)])"

declare digits_of_nat.simps [simp del]

text \<open>\<^verbatim>\<open>fmt.Sprintf("%d", x)\<close>.\<close>

definition sprint_int :: "int \<Rightarrow> string" where
  "sprint_int x = (if x < 0 then CHR ''-'' # digits_of_nat (nat (- x)) else digits_of_nat (nat x))"

text \<open>
  \<^verbatim>\<open>filepath.Join\<close> on a Unix system: the non-empty elements joined by a slash, then
  \<^verbatim>\<open>filepath.Clean\<close>, which drops empty and \<^verbatim>\<open>.\<close> elements, cancels an inner
  \<^verbatim>\<open>..\<close> against the element before it, drops \<^verbatim>\<open>..\<close> at the root and turns the empty
  path into \<^verbatim>\<open>.\<close>.
\<close>

fun split_slash :: "string \<Rightarrow> string list" where
  "split_slash [] = [[]]"
| "split_slash (c # cs) =
     (if c = CHR ''/'' then [] # split_slash cs
      else (case split_slash cs of
              [] \<Rightarrow> [[c]]
            | e # es \<Rightarrow> (c # e) # es))"

fun clean_elems :: "bool \<Rightarrow> string list \<Rightarrow> string list \<Rightarrow> string list" where
  "clean_elems rooted kept [] = rev kept"
| "clean_elems rooted kept (e # es) =
     (if e = [] \<or> e = ''.'' then clean_elems rooted kept es
      else if e = ''..'' then
        (case kept of
           [] \<Rightarrow> clean_elems rooted (if rooted then [] else [e]) es
         | k # ks \<Rightarrow>
             if k = ''..'' then clean_elems rooted (e # kept) es
             else clean_elems rooted ks es)
      else clean_elems rooted (e # kept) es)"

fun join_slash :: "string list \<Rightarrow> string" where
  "join_slash [] = []"
| "join_slash [e] = e"
| "join_slash (e # es) = e @ ''/'' @ join_slash es"

definition filepath_Clean :: "string \<Rightarrow> string" where
  "filepath_Clean path =
     (let rooted = (path \<noteq> [] \<and> hd path = CHR ''/'');
          out = (if rooted then ''/'' else []) @ join_slash (clean_elems rooted [] (split_slash path))
      in if out = [] then ''.'' else out)"

definition filepath_Join :: "string \<Rightarrow> string \<Rightarrow> string" where
  "filepath_Join a b =
     (if a \<noteq> [] then filepath_Clean (a @ ''/'' @ b)
      else if b \<noteq> [] then filepath_Clean b
      else [])"

subsection \<open>Time\<close>

text \<open>
  The part of Go's \<^verbatim>\<open>time\<close> package the program uses (as the package stands up to
  Go 1.22), over the proleptic Gregorian calendar. An instant is a number of seconds since
  the Unix epoch, a number of nanoseconds and a location. A location answers
  \<^verbatim>\<open>lookup\<close>: for a Unix time, the zone in effect, with its offset in seconds east of UTC
  and the period \<open>[zone_start, zone_end)\<close> in which it is in effect.
\<close>

record zone =
  zone_offset :: int
  zone_start :: int
  zone_end :: int

type_synonym location = "int \<Rightarrow> zone"

record time =
  unix_sec :: int
  nsec :: int
  loc :: location

text \<open>
  Go's arithmetic on \<^verbatim>\<open>int\<close>, \<^verbatim>\<open>int64\<close> and \<^verbatim>\<open>uint64\<close> is modulo \<open>2 ^ 64\<close>:
  \<open>wrap64 x\<close> is the signed 64-bit value of a result \<open>x\<close>, and \<open>u64 x\<close> the unsigned one. A
  sum, difference or product wrapped once is the same as one wrapped at every operation.
\<close>

definition wrap64 :: "int \<Rightarrow> int" where
  "wrap64 x = (x + 2 ^ 63) mod 2 ^ 64 - 2 ^ 63"

definition u64 :: "int \<Rightarrow> int" where
  "u64 x = x mod 2 ^ 64"

definition in_int64 :: "int \<Rightarrow> bool" where
  "in_int64 x = (- (2 ^ 63) \<le> x \<and> x < 2 ^ 63)"

text \<open>
  \<^verbatim>\<open>t.Before(u)\<close>: the instant \<open>t\<close> is strictly before \<open>u\<close>. (The program compares
  a modification time with the result of \<^verbatim>\<open>AddDate\<close>; neither carries a reading of the
  monotonic clock, so the wall-clock instants are compared.)
\<close>

definition Before :: "time \<Rightarrow> time \<Rightarrow> bool" where
  "Before t u = (unix_sec t < unix_sec u \<or> (unix_sec t = unix_sec u \<and> nsec t < nsec u))"

definition isLeap :: "int \<Rightarrow> bool" where
  "isLeap year = (year mod 4 = 0 \<and> (year mod 100 \<noteq> 0 \<or> year mod 400 = 0))"

text \<open>\<open>daysBefore m\<close>: the days of a non-leap year before month \<open>m + 1\<close>.\<close>

definition daysBefore :: "nat \<Rightarrow> int" where
  "daysBefore m = [0, 31, 59, 90, 120, 151, 181, 212, 243, 273, 304, 334, 365] ! m"

text \<open>
  \<^verbatim>\<open>norm(hi, lo, base)\<close> brings \<open>lo\<close> into \<open>[0, base)\<close> and moves the rest into \<open>hi\<close>.
  Both quotients have a dividend that is not negative, where Go's division is \<open>div\<close>.
\<close>

definition norm :: "int \<Rightarrow> int \<Rightarrow> int \<Rightarrow> int \<times> int" where
  "norm hi lo base =
     (let (hi1, lo1) =
            (if lo < 0 then
               (let n = wrap64 (wrap64 (- lo - 1) div base + 1)
                in (wrap64 (hi - n), wrap64 (lo + n * base)))
             else (hi, lo))
      in if base \<le> lo1 then
           (let n = lo1 div base
            in (wrap64 (hi1 + n), wrap64 (lo1 - n * base)))
         else (hi1, lo1))"

text \<open>
  The package counts its days from January 1 of the year \<open>absoluteZeroYear\<close>, which is a
  year 1 modulo 400, in unsigned 64-bit numbers. \<^verbatim>\<open>daysSinceEpoch(year)\<close> cuts the years
  since then into cycles of 400, 100, 4 and 1 years.
\<close>

definition absoluteZeroYear :: int where
  "absoluteZeroYear = - 292277022399"

definition absoluteToInternal :: int where
  "absoluteToInternal = - 9223371966579724800"

definition internalToUnix :: int where
  "internalToUnix = - 62135596800"

definition daysSinceEpoch :: "int \<Rightarrow> int" where
  "daysSinceEpoch year =
     (let y = u64 (year - absoluteZeroYear);
          n400 = y div 400;
          y1 = y - 400 * n400;
          d1 = u64 (146097 * n400);
          n100 = y1 div 100;
          y2 = y1 - 100 * n100;
          d2 = u64 (d1 + 36524 * n100);
          n4 = y2 div 4;
          y3 = y2 - 4 * n4;
          d3 = u64 (d2 + 1461 * n4)
      in u64 (d3 + 365 * y3))"

text \<open>
  \<^verbatim>\<open>time.Date\<close>: the fields are normalised (a month beyond 12 moves into the year, and so
  on), the day is counted on from the start of the month whatever its value, the days are
  turned into seconds, and the wall-clock reading is resolved in the location: the offset
  found at the reading taken as UTC, or, when that zone is not in effect at the instant it
  gives, the offset found there. After the normalisation the month is in 1 to 12 and the
  hour, minute and second are in their ranges; the day count and the seconds wrap around.
\<close>

definition Date ::
  "int \<Rightarrow> int \<Rightarrow> int \<Rightarrow> int \<Rightarrow> int \<Rightarrow> int \<Rightarrow> int \<Rightarrow> location \<Rightarrow> time"
where
  "Date year month day hour mins sec ns l =
     (let (year1, m) = norm year (wrap64 (month - 1)) 12;
          month1 = m + 1;
          (sec1, nsec1) = norm sec ns 1000000000;
          (min1, sec2) = norm mins sec1 60;
          (hour1, min2) = norm hour min1 60;
          (day1, hour2) = norm day hour1 24;
          d = u64 (daysSinceEpoch year1 + daysBefore (nat (month1 - 1)));
          d1 = (if isLeap year1 \<and> 3 \<le> month1 then u64 (d + 1) else d);
          d2 = u64 (d1 + (day1 - 1));
          abs_sec = u64 (d2 * 86400 + (hour2 * 3600 + min2 * 60 + sec2));
          unix = wrap64 (abs_sec + (absoluteToInternal + internalToUnix));
          z = l unix;
          unix1 =
            (if zone_offset z \<noteq> 0 then
               (let utc = wrap64 (unix - zone_offset z);
                    offset = (if utc < zone_start z \<or> zone_end z \<le> utc
                              then zone_offset (l utc) else zone_offset z)
                in wrap64 (unix - offset))
             else unix)
      in \<lparr>unix_sec = unix1, nsec = nsec1, loc = l\<rparr>)"

text \<open>The seconds since the Unix epoch that the wall clock of \<open>t\<close>'s location shows.\<close>

definition local_sec :: "time \<Rightarrow> int" where
  "local_sec t = unix_sec t + zone_offset (loc t (unix_sec t))"

text \<open>
  The month (from 0) of a day of a non-leap year (from 0), and the days before that month:
  the estimate \<open>day div 31\<close> is at most one month too low.
\<close>

definition month_estimate :: "int \<Rightarrow> nat \<times> int" where
  "month_estimate day =
     (let m = nat (day div 31);
          end_m = daysBefore (m + 1)
      in if end_m \<le> day then (m + 1, end_m) else (m, daysBefore m))"

text \<open>Month and day of the month from the day of the year (from 0).\<close>

definition month_day :: "bool \<Rightarrow> int \<Rightarrow> int \<times> int" where
  "month_day leap yday =
     (if leap \<and> yday = 31 + 29 - 1 then (2, 29)
      else
        (let day = (if leap \<and> 31 + 29 - 1 < yday then yday - 1 else yday);
             (m, begin_m) = month_estimate day
         in (int m + 1, day - begin_m + 1)))"

text \<open>The days from January 1 of year 1 to the Unix epoch, January 1 of 1970.\<close>

definition unixEpochDays :: int where
  "unixEpochDays = 719162"

text \<open>
  Year, month and day from the days since January 1 of year 1: the 400-year, 100-year,
  4-year and 1-year cycles are cut off in turn. (The package cuts the same cycles off its
  unsigned count of days since the absolute zero year, which starts a 400-year cycle as
  year 1 does; for every instant the package can read, from January 1 of that year on, the
  fields are the same.)
\<close>

definition civil_of_days :: "int \<Rightarrow> int \<times> int \<times> int" where
  "civil_of_days d =
     (let n400 = d div 146097;
          d1 = d - 146097 * n400;
          n100 = d1 div 36524;
          n100' = n100 - n100 div 4;
          d2 = d1 - 36524 * n100';
          n4 = d2 div 1461;
          d3 = d2 - 1461 * n4;
          n1 = d3 div 365;
          n1' = n1 - n1 div 4;
          yday = d3 - 365 * n1';
          year = 400 * n400 + 100 * n100' + 4 * n4 + n1' + 1;
          (month, day) = month_day (isLeap year) yday
      in (year, month, day))"

text \<open>\<^verbatim>\<open>t.Date()\<close> and \<^verbatim>\<open>t.Clock()\<close>, in the location of \<open>t\<close>.\<close>

definition time_Date :: "time \<Rightarrow> int \<times> int \<times> int" where
  "time_Date t = civil_of_days (local_sec t div 86400 + unixEpochDays)"

definition time_Clock :: "time \<Rightarrow> int \<times> int \<times> int" where
  "time_Clock t =
     (let s = local_sec t mod 86400
      in (s div 3600, (s mod 3600) div 60, s mod 60))"

text \<open>\<^verbatim>\<open>t.AddDate(years, months, days)\<close>.\<close>

definition AddDate :: "time \<Rightarrow> int \<Rightarrow> int \<Rightarrow> int \<Rightarrow> time" where
  "AddDate t years months days =
     (let (year, month, day) = time_Date t;
          (hour, mins, sec) = time_Clock t
      in Date (wrap64 (year + years)) (wrap64 (month + months)) (wrap64 (day + days))
           hour mins sec (nsec t) (loc t))"

text \<open>
  How a layout prints a number: the decimal digits of the absolute value, padded with
  zeros to the width, after a minus sign when the number is negative.
\<close>

definition appendInt :: "int \<Rightarrow> nat \<Rightarrow> string" where
  "appendInt x width =
     (let ds = digits_of_nat (nat \<bar>x\<bar>);
          padded = replicate (width - length ds) CHR ''0'' @ ds
      in if x < 0 then CHR ''-'' # padded else padded)"

text \<open>\<^verbatim>\<open>t.Format("2006-01-02_15-04-05")\<close>.\<close>

definition layout :: "int \<Rightarrow> int \<Rightarrow> int \<Rightarrow> int \<Rightarrow> int \<Rightarrow> int \<Rightarrow> string" where
  "layout year month day hour mins sec =
     appendInt year 4 @ ''-'' @ appendInt month 2 @ ''-'' @ appendInt day 2 @ ''_''
     @ appendInt hour 2 @ ''-'' @ appendInt mins 2 @ ''-'' @ appendInt sec 2"


definition time_Format :: "time \<Rightarrow> string" where
  "time_Format t =
     (let (year, month, day) = time_Date t;
          (hour, mins, sec) = time_Clock t
      in layout year month day hour mins sec)"

text \<open>The negation of a 64-bit \<^verbatim>\<open>int\<close>: the least value is its own negation.\<close>

definition go_neg :: "int \<Rightarrow> int" where
  "go_neg x = (if x = - (2 ^ 63) then x else - x)"

subsection \<open>The calendar\<close>

text \<open>
  What the specification calls the current time minus \<open>r\<close> calendar days, over the
  unbounded integers: the wall clock shows the same time of day on the date \<open>r\<close> days
  earlier, and the instant is the one at which the location shows that reading (resolved
  as \<^verbatim>\<open>time.Date\<close> resolves a reading that a change of the clocks skips or repeats).
\<close>

definition at_wall_clock :: "location \<Rightarrow> int \<Rightarrow> int \<Rightarrow> time" where
  "at_wall_clock l wall ns =
     (let z = l wall;
          offset =
            (if zone_offset z \<noteq> 0 then
               (let utc = wall - zone_offset z
                in if utc < zone_start z \<or> zone_end z \<le> utc
                   then zone_offset (l utc) else zone_offset z)
             else 0)
      in \<lparr>unix_sec = wall - offset, nsec = ns, loc = l\<rparr>)"

definition minus_calendar_days :: "time \<Rightarrow> int \<Rightarrow> time" where
  "minus_calendar_days t r = at_wall_clock (loc t) (local_sec t - r * 86400) (nsec t)"

text \<open>
  The range of the package: an instant it can read lies at or after January 1 of the
  absolute zero year on its wall clock, with nanoseconds below a second; a wall-clock
  reading it can resolve is in the signed 64-bit range, together with the instants that
  the offsets of the location give for it.
\<close>

definition readable :: "time \<Rightarrow> bool" where
  "readable t =
     (absoluteToInternal + internalToUnix \<le> local_sec t \<and> local_sec t < 2 ^ 63
      \<and> 0 \<le> nsec t \<and> nsec t < 1000000000)"

definition resolvable :: "location \<Rightarrow> int \<Rightarrow> bool" where
  "resolvable l wall =
     (in_int64 wall \<and> in_int64 (wall - zone_offset (l wall))
      \<and> in_int64 (unix_sec (at_wall_clock l wall 0)))"

text \<open>
  The days from January 1 of year 1 to January 1 of \<open>year\<close>, the days of the year before
  the given month (1 to 12), and the days from January 1 of year 1 to the given day of the
  given month and year.
\<close>

definition days_before_year :: "int \<Rightarrow> int" where
  "days_before_year year = (let y = year - 1 in 365 * y + y div 4 - y div 100 + y div 400)"

definition monthStart :: "bool \<Rightarrow> int \<Rightarrow> int" where
  "monthStart leap month =
     daysBefore (nat (month - 1)) + (if leap \<and> 3 \<le> month then 1 else 0)"

definition dateToDays :: "int \<Rightarrow> int \<Rightarrow> int \<Rightarrow> int" where
  "dateToDays year month day =
     days_before_year year + monthStart (isLeap year) month + (day - 1)"

subsection \<open>External commands\<close>

record cmd =
  Path :: string
  Args :: "string list"
  Env :: "string list"
  Err :: "string option"

text \<open>\<^verbatim>\<open>filepath.Base\<close>: the last element of the path, trailing slashes removed.\<close>

definition filepath_Base :: "string \<Rightarrow> string" where
  "filepath_Base path =
     (if path = [] then ''.''
      else
        (let stripped = rev (dropWhile (\<lambda>c. c = CHR ''/'') (rev path));
             elem = rev (takeWhile (\<lambda>c. c \<noteq> CHR ''/'') (rev stripped))
         in if elem = [] then ''/'' else elem))"

text \<open>
  \<^verbatim>\<open>exec.Command\<close>: a name without a directory is looked up in the search path;
  \<open>lookPath\<close> gives the path found (or the empty string) and the error of the lookup.
\<close>

definition exec_Command :: "(string \<Rightarrow> string \<times> string option) \<Rightarrow> string \<Rightarrow> string list \<Rightarrow> cmd" where
  "exec_Command lookPath name arg =
     (let c = \<lparr>Path = name, Args = name # arg, Env = [], Err = None\<rparr>
      in if filepath_Base name = name then
           (let (lp, err) = lookPath name;
                c1 = (if lp \<noteq> [] then c\<lparr>Path := lp\<rparr> else c)
            in (case err of None \<Rightarrow> c1 | Some e \<Rightarrow> c1\<lparr>Err := Some e\<rparr>))
         else c)"

text \<open>\<^verbatim>\<open>cmd.String()\<close>, the text of the command in the log.\<close>

fun join_space :: "string list \<Rightarrow> string" where
  "join_space [] = []"
| "join_space [a] = a"
| "join_space (a # as) = a @ '' '' @ join_space as"

definition cmd_String :: "cmd \<Rightarrow> string" where
  "cmd_String c =
     (if Err c \<noteq> None then join_space (Args c)
      else Path c @ concat (map (\<lambda>a. CHR '' '' # a) (tl (Args c))))"

subsection \<open>The environment and the history of calls\<close>

record file_info =
  ModTime :: time

text \<open>
  An entry of a directory listing, with what \<^verbatim>\<open>entry.Info()\<close> will answer for it (the
  file can have gone since the listing).
\<close>

record dir_entry =
  entry_Name :: string
  IsDir :: bool
  Info :: "string + file_info"

text \<open>
  Every call the program makes to its environment is recorded, with the answer, in a
  history; the latest call is last.
\<close>

datatype event =
    Logged string
  | MkdirAll string "string option"
  | Now time
  | CombinedOutput cmd string "string option"
  | ReadDir string "string + dir_entry list"
  | Remove string "string option"
  | NewTicker int
  | Tick

text \<open>
  The environment answers each call, knowing the history so far: the clock, the file
  system and the child process are whatever they are at that moment.
\<close>

record world =
  os_Environ :: "string list"
  exec_LookPath :: "string \<Rightarrow> string \<times> string option"
  time_Now :: "event list \<Rightarrow> time"
  os_MkdirAll :: "event list \<Rightarrow> string \<Rightarrow> string option"
  child_process :: "event list \<Rightarrow> cmd \<Rightarrow> string \<times> string option"
  os_ReadDir :: "event list \<Rightarrow> string \<Rightarrow> string + dir_entry list"
  os_Remove :: "event list \<Rightarrow> string \<Rightarrow> string option"

text \<open>
  \<^verbatim>\<open>cmd.CombinedOutput()\<close>: a command whose lookup failed is not started and returns
  that error; otherwise the child process runs and gives its combined output and its
  error (\<open>None\<close> when it exits with status 0).
\<close>

definition run_CombinedOutput :: "world \<Rightarrow> event list \<Rightarrow> cmd \<Rightarrow> string \<times> string option" where
  "run_CombinedOutput w tr c =
     (case Err c of
        Some e \<Rightarrow> ([], Some e)
      | None \<Rightarrow> child_process w tr c)"

subsection \<open>The dump command\<close>

text \<open>\<^verbatim>\<open>buildPgDumpCommand\<close>.\<close>

definition buildPgDumpCommand :: "world \<Rightarrow> config \<Rightarrow> string \<Rightarrow> cmd" where
  "buildPgDumpCommand w cfg outputPath =
     (let args0 =
            [''pg_dump'',
             ''-h'', Host (Database cfg),
             ''-p'', sprint_int (Port (Database cfg)),
             ''-U'', User (Database cfg),
             ''-d'', Name (Database cfg),
             ''--verbose'',
             ''--no-password''];
          args1 =
            (if Format (Backup cfg) = ''plain'' then args0 @ [''--format=plain'']
             else if Format (Backup cfg) = ''tar'' then args0 @ [''--format=tar'']
             else if Format (Backup cfg) = ''directory'' then args0 @ [''--format=directory'']
             else args0 @ [''--format=custom'']);
          args2 =
            (if Format (Backup cfg) = ''directory'' then args1 @ [''--file'', outputPath]
             else args1 @ [''--file'', outputPath])
      in exec_Command (exec_LookPath w) (hd args2) (tl args2))"

text \<open>The format that the second \<^verbatim>\<open>switch\<close> of the source passes to the tool.\<close>

definition format_flag :: "config \<Rightarrow> string" where
  "format_flag cfg =
     (if Format (Backup cfg) = ''plain'' then ''plain''
      else if Format (Backup cfg) = ''tar'' then ''tar''
      else if Format (Backup cfg) = ''directory'' then ''directory''
      else ''custom'')"

text \<open>
  The local variables of \<^verbatim>\<open>performBackup\<close> up to the command it runs, as functions of
  the configuration and of the reading \<open>now\<close> of the clock.
\<close>

definition extension :: "config \<Rightarrow> string" where
  "extension cfg =
     (if Format (Backup cfg) = ''plain'' then ''.sql''
      else if Format (Backup cfg) = ''tar'' then ''.tar''
      else if Format (Backup cfg) = ''directory'' then []
      else ''.dump'')"

definition filename :: "config \<Rightarrow> time \<Rightarrow> string" where
  "filename cfg now = Name (Database cfg) @ ''_'' @ time_Format now @ extension cfg"

definition outputPath :: "config \<Rightarrow> time \<Rightarrow> string" where
  "outputPath cfg now = filepath_Join (OutputDir (Backup cfg)) (filename cfg now)"

definition dump_cmd :: "world \<Rightarrow> config \<Rightarrow> time \<Rightarrow> cmd" where
  "dump_cmd w cfg now =
     (buildPgDumpCommand w cfg (outputPath cfg now))
       \<lparr>Env := os_Environ w @ [''PGPASSWORD='' @ Password (Database cfg)]\<rparr>"

subsection \<open>The sweep\<close>

text \<open>The loop of \<^verbatim>\<open>cleanupOldBackups\<close> over the entries of the listing.\<close>

fun sweep :: "world \<Rightarrow> config \<Rightarrow> time \<Rightarrow> dir_entry list \<Rightarrow> event list \<Rightarrow> event list" where
  "sweep w cfg cutoff [] tr = tr"
| "sweep w cfg cutoff (entry # entries) tr =
     (if IsDir entry then sweep w cfg cutoff entries tr
      else
        (case Info entry of
           Inl err \<Rightarrow> sweep w cfg cutoff entries tr
         | Inr info \<Rightarrow>
             if Before (ModTime info) cutoff then
               (let path = filepath_Join (OutputDir (Backup cfg)) (entry_Name entry)
                in case os_Remove w tr path of
                     Some err \<Rightarrow>
                       sweep w cfg cutoff entries
                         (tr @ [Remove path (Some err),
                                Logged (''Failed to remove old backup '' @ path @ '': '' @ err)])
                   | None \<Rightarrow>
                       sweep w cfg cutoff entries
                         (tr @ [Remove path None, Logged (''Removed old backup: '' @ path)]))
             else sweep w cfg cutoff entries tr))"

text \<open>The local variable \<^verbatim>\<open>cutoff\<close> of \<^verbatim>\<open>cleanupOldBackups\<close>, from the reading of the clock.\<close>

definition cutoff :: "config \<Rightarrow> time \<Rightarrow> time" where
  "cutoff cfg now = AddDate now 0 0 (go_neg (Retention (Backup cfg)))"

text \<open>\<^verbatim>\<open>cleanupOldBackups\<close>: the history after the call, and the error returned.\<close>

definition cleanupOldBackups :: "world \<Rightarrow> config \<Rightarrow> event list \<Rightarrow> event list \<times> string option" where
  "cleanupOldBackups w cfg tr =
     (let dir = OutputDir (Backup cfg);
          listing = os_ReadDir w tr dir;
          tr1 = tr @ [ReadDir dir listing]
      in case listing of
           Inl err \<Rightarrow> (tr1, Some (''failed to read backup directory: '' @ err))
         | Inr entries \<Rightarrow>
             (let now = time_Now w tr1;
                  tr2 = tr1 @ [Now now]
              in (sweep w cfg (cutoff cfg now) entries tr2, None)))"

subsection \<open>One backup, and the loop\<close>

text \<open>\<^verbatim>\<open>performBackup\<close>: the history after the call, and the error returned.\<close>

definition performBackup :: "world \<Rightarrow> config \<Rightarrow> event list \<Rightarrow> event list \<times> string option" where
  "performBackup w cfg tr =
     (let tr1 = tr @ [Logged ''Starting backup...''];
          now = time_Now w tr1;
          tr2 = tr1 @ [Now now];
          c = dump_cmd w cfg now;
          tr3 = tr2 @ [Logged (''Running: '' @ cmd_String c)];
          (output, err) = run_CombinedOutput w tr3 c;
          tr4 = tr3 @ [CombinedOutput c output err]
      in case err of
           Some e \<Rightarrow> (tr4, Some (''pg_dump failed: '' @ e @ '', output: '' @ output))
         | None \<Rightarrow>
             (let tr5 = tr4 @ [Logged (''Backup completed successfully: '' @ outputPath cfg now)];
                  (tr6, cerr) = cleanupOldBackups w cfg tr5
              in case cerr of
                   Some e \<Rightarrow>
                     (tr6 @ [Logged (''Warning: Failed to cleanup old backups: '' @ e)], None)
                 | None \<Rightarrow> (tr6, None)))"

text \<open>
  How a call of \<^verbatim>\<open>Start\<close> stands after the ticker has delivered a number of ticks: it
  has returned an error, it has panicked, or it waits for the next tick.
\<close>

datatype outcome = Returned "string option" | Panicked string | Waiting

text \<open>
  The statement \<^verbatim>\<open>if err := bt.performBackup(); err != nil { bt.logger.Printf(...) }\<close>,
  which \<^verbatim>\<open>Start\<close> has twice, with the text that precedes the error in the log.
\<close>

definition backup_logged :: "world \<Rightarrow> config \<Rightarrow> string \<Rightarrow> event list \<Rightarrow> event list" where
  "backup_logged w cfg prefix tr =
     (let (tr1, err) = performBackup w cfg tr
      in case err of
           Some e \<Rightarrow> tr1 @ [Logged (prefix @ e)]
         | None \<Rightarrow> tr1)"

text \<open>The loop \<^verbatim>\<open>for range ticker.C\<close>, for the first \<open>n\<close> ticks.\<close>

fun ticks :: "world \<Rightarrow> config \<Rightarrow> nat \<Rightarrow> event list \<Rightarrow> event list" where
  "ticks w cfg 0 tr = tr"
| "ticks w cfg (Suc n) tr =
     ticks w cfg n (backup_logged w cfg ''Backup failed: '' (tr @ [Tick]))"

text \<open>
  \<^verbatim>\<open>Start\<close>, observed until the ticker has delivered \<open>n\<close> ticks. \<^verbatim>\<open>time.NewTicker\<close>
  panics on an interval that is not positive.
\<close>

definition Start :: "world \<Rightarrow> config \<Rightarrow> nat \<Rightarrow> event list \<Rightarrow> event list \<times> outcome" where
  "Start w cfg n tr =
     (let tr1 = tr @ [Logged ''Starting backup tool...''];
          dir = OutputDir (Backup cfg);
          merr = os_MkdirAll w tr1 dir;
          tr2 = tr1 @ [MkdirAll dir merr]
      in case merr of
           Some err \<Rightarrow> (tr2, Returned (Some (''failed to create output directory: '' @ err)))
         | None \<Rightarrow>
             (let tr3 = backup_logged w cfg ''Initial backup failed: '' tr2
              in if Frequency (Backup cfg) \<le> 0
                 then (tr3, Panicked ''non-positive interval for NewTicker'')
                 else (ticks w cfg n (tr3 @ [NewTicker (Frequency (Backup cfg))]), Waiting)))"

subsection \<open>Reading a history\<close>

text \<open>The lines written to the log, in order.\<close>

fun logs :: "event list \<Rightarrow> string list" where
  "logs [] = []"
| "logs (Logged m # tr) = m # logs tr"
| "logs (e # tr) = logs tr"

text \<open>The calls of \<^verbatim>\<open>os.Remove\<close>, each with its path and its error.\<close>

fun removes :: "event list \<Rightarrow> (string \<times> string option) list" where
  "removes [] = []"
| "removes (Remove path err # tr) = (path, err) # removes tr"
| "removes (e # tr) = removes tr"

text \<open>The directories listed by \<^verbatim>\<open>os.ReadDir\<close>.\<close>

fun readdirs :: "event list \<Rightarrow> string list" where
  "readdirs [] = []"
| "readdirs (ReadDir dir listing # tr) = dir # readdirs tr"
| "readdirs (e # tr) = readdirs tr"

text \<open>The runs of an external command, each with the command and its error.\<close>

fun dumps :: "event list \<Rightarrow> (cmd \<times> string option) list" where
  "dumps [] = []"
| "dumps (CombinedOutput c output err # tr) = (c, err) # dumps tr"
| "dumps (e # tr) = dumps tr"

text \<open>
  The runs of an external command, each with the command, its combined output and its
  error.
\<close>

fun command_runs :: "event list \<Rightarrow> (cmd \<times> string \<times> string option) list" where
  "command_runs [] = []"
| "command_runs (CombinedOutput c output err # tr) = (c, output, err) # command_runs tr"
| "command_runs (e # tr) = command_runs tr"

text \<open>
  The steps of the schedule in a history: the creation of the output directory, the runs
  of the dump command, the creation of the ticker and the ticks received.
\<close>

datatype step = Mkdir_step | Dump_step | Ticker_step | Tick_step

fun schedule :: "event list \<Rightarrow> step list" where
  "schedule [] = []"
| "schedule (MkdirAll dir err # tr) = Mkdir_step # schedule tr"
| "schedule (CombinedOutput c output err # tr) = Dump_step # schedule tr"
| "schedule (NewTicker d # tr) = Ticker_step # schedule tr"
| "schedule (Tick # tr) = Tick_step # schedule tr"
| "schedule (e # tr) = schedule tr"

text \<open>The line the sweep writes to the log after a call of \<^verbatim>\<open>os.Remove\<close>.\<close>

fun removal_report :: "string \<times> string option \<Rightarrow> string" where
  "removal_report (path, Some err) = ''Failed to remove old backup '' @ path @ '': '' @ err"
| "removal_report (path, None) = ''Removed old backup: '' @ path"

text \<open>\<^verbatim>\<open>time.FixedZone\<close>: a location with one offset at all times; \<^verbatim>\<open>time.UTC\<close>.\<close>

definition FixedZone :: "int \<Rightarrow> location" where
  "FixedZone offset = (\<lambda>u. \<lparr>zone_offset = offset, zone_start = - (2 ^ 63), zone_end = 2 ^ 63 - 1\<rparr>)"

definition UTC :: location where
  "UTC = FixedZone 0"

text \<open>
  The reading of the clock at the start of a backup, and the history when the dump command
  is about to run.
\<close>

definition backup_now :: "world \<Rightarrow> event list \<Rightarrow> time" where
  "backup_now w tr = time_Now w (tr @ [Logged ''Starting backup...''])"

definition before_dump :: "world \<Rightarrow> config \<Rightarrow> event list \<Rightarrow> event list" where
  "before_dump w cfg tr =
     tr @ [Logged ''Starting backup...'',
           Now (backup_now w tr),
           Logged (''Running: '' @ cmd_String (dump_cmd w cfg (backup_now w tr)))]"

text \<open>What the run of the dump command of a backup gives: its combined output and its error.\<close>

definition dump_outcome :: "world \<Rightarrow> config \<Rightarrow> event list \<Rightarrow> string \<times> string option" where
  "dump_outcome w cfg tr =
     run_CombinedOutput w (before_dump w cfg tr) (dump_cmd w cfg (backup_now w tr))"

text \<open>The history of \<^verbatim>\<open>Start\<close> when it is about to create the ticker.\<close>

definition initial_backup :: "world \<Rightarrow> config \<Rightarrow> event list \<Rightarrow> event list" where
  "initial_backup w cfg tr =
     backup_logged w cfg ''Initial backup failed: ''
       (tr @ [Logged ''Starting backup tool...'', MkdirAll (OutputDir (Backup cfg)) None])"

text \<open>The last \<open>w\<close> decimal digits of a number.\<close>

fun fixed_digits :: "nat \<Rightarrow> nat \<Rightarrow> string" where
  "fixed_digits 0 n = []"
| "fixed_digits (Suc w) n = fixed_digits w (n div 10) @ [digit_char (n mod 10)]"

subsection \<open>Concrete inputs\<close>

text \<open>
  A configuration with a retention of seven days, noon of 2024-11-03 in UTC, and an output
  directory with four dump files, ten, eight, seven and six days old, and a
  directory-format dump thirty days old.
\<close>

definition example_config :: config where
  "example_config =
     \<lparr>Database =
        \<lparr>Host = ''localhost'', Port = 5432, Name = ''shop'', User = ''postgres'',
         Password = ''s3cret''\<rparr>,
      Backup =
        \<lparr>OutputDir = ''/var/backups'', Frequency = 3600000000000, Retention = 7,
         Format = ''custom''\<rparr>,
      Logging = \<lparr>Level = ''info'', FilePath = []\<rparr>\<rparr>"


definition no_interval_config :: config where
  "no_interval_config =
     example_config\<lparr>Backup := (Backup example_config)\<lparr>Frequency := 0\<rparr>\<rparr>"

text \<open>A configuration file that sets the port and the retention to 0 and omits the interval.\<close>

definition example_doc :: yaml_doc where
  "example_doc =
     \<lparr>yaml_host = None, yaml_port = Some 0, yaml_name = Some ''shop'',
      yaml_user = Some ''postgres'', yaml_password = Some ''s3cret'',
      yaml_output_dir = Some ''/var/backups'', yaml_frequency = None,
      yaml_retention_days = Some 0, yaml_format = None, yaml_level = None,
      yaml_file_path = None\<rparr>"

definition noon :: time where
  "noon = \<lparr>unix_sec = 1730635200, nsec = 0, loc = UTC\<rparr>"

definition days_before_noon :: "int \<Rightarrow> time" where
  "days_before_noon n = \<lparr>unix_sec = 1730635200 - n * 86400, nsec = 0, loc = UTC\<rparr>"

definition example_listing :: "dir_entry list" where
  "example_listing =
     [\<lparr>entry_Name = ''shop_2024-10-04_12-00-00'', IsDir = True,
       Info = Inr \<lparr>ModTime = days_before_noon 30\<rparr>\<rparr>,
      \<lparr>entry_Name = ''shop_2024-10-24_12-00-00.dump'', IsDir = False,
       Info = Inr \<lparr>ModTime = days_before_noon 10\<rparr>\<rparr>,
      \<lparr>entry_Name = ''shop_2024-10-26_12-00-00.dump'', IsDir = False,
       Info = Inr \<lparr>ModTime = days_before_noon 8\<rparr>\<rparr>,
      \<lparr>entry_Name = ''shop_2024-10-27_12-00-00.dump'', IsDir = False,
       Info = Inr \<lparr>ModTime = days_before_noon 7\<rparr>\<rparr>,
      \<lparr>entry_Name = ''shop_2024-10-28_12-00-00.dump'', IsDir = False,
       Info = Inr \<lparr>ModTime = days_before_noon 6\<rparr>\<rparr>]"

text \<open>
  An environment in which the clock stands at that noon, the directory has that listing,
  and the dump command and the removal of a file end as given.
\<close>

definition example_world :: "string \<times> string option \<Rightarrow> string option \<Rightarrow> world" where
  "example_world dump_result remove_result =
     \<lparr>os_Environ = [''PATH=/usr/bin''],
      exec_LookPath = (\<lambda>name. (''/usr/bin/'' @ name, None)),
      time_Now = (\<lambda>tr. noon),
      os_MkdirAll = (\<lambda>tr dir. None),
      child_process = (\<lambda>tr c. dump_result),
      os_ReadDir = (\<lambda>tr dir. Inr example_listing),
      os_Remove = (\<lambda>tr path. remove_result)\<rparr>"

definition dump_failure :: "string \<times> string option" where
  "dump_failure = (''pg_dump: error: connection to server failed'', Some ''exit status 1'')"

definition dump_success :: "string \<times> string option" where
  "dump_success = ([], None)"

text \<open>
  Two instants in New York on 2024-11-03, when the clocks go back at 06:00 UTC: 05:30 UTC
  is 01:30 local time, and 06:10 UTC is 01:10 local time.
\<close>

definition New_York :: location where
  "New_York =
     (\<lambda>u. if u < 1710054000
          then \<lparr>zone_offset = - 18000, zone_start = - (2 ^ 63), zone_end = 1710054000\<rparr>
          else if u < 1730613600
          then \<lparr>zone_offset = - 14400, zone_start = 1710054000, zone_end = 1730613600\<rparr>
          else \<lparr>zone_offset = - 18000, zone_start = 1730613600, zone_end = 2 ^ 63 - 1\<rparr>)"

text \<open>Noon in New York six days later, 17:00 UTC on 2024-11-09.\<close>

definition week_after_fall_back :: time where
  "week_after_fall_back = \<lparr>unix_sec = 1731171600, nsec = 0, loc = New_York\<rparr>"

text \<open>The last second of the year 9999 and the first of the year 10000, in UTC.\<close>

definition end_of_9999 :: time where
  "end_of_9999 = \<lparr>unix_sec = 253402300799, nsec = 0, loc = UTC\<rparr>"

definition start_of_10000 :: time where
  "start_of_10000 = \<lparr>unix_sec = 253402300800, nsec = 0, loc = UTC\<rparr>"

definition before_fall_back :: time where
  "before_fall_back = \<lparr>unix_sec = 1730611800, nsec = 0, loc = New_York\<rparr>"

definition after_fall_back :: time where
  "after_fall_back = \<lparr>unix_sec = 1730614200, nsec = 0, loc = New_York\<rparr>"

section \<open>Properties\<close>

subsection \<open>What a sweep, a backup and the loop add to the history\<close>


lemma logs_append [simp]: "logs (xs @ ys) = logs xs @ logs ys"
  by (induction xs rule: logs.induct) simp_all
lemma removes_append [simp]: "removes (xs @ ys) = removes xs @ removes ys"
  by (induction xs rule: removes.induct) simp_all
lemma readdirs_append [simp]: "readdirs (xs @ ys) = readdirs xs @ readdirs ys"
  by (induction xs rule: readdirs.induct) simp_all
lemma dumps_append [simp]: "dumps (xs @ ys) = dumps xs @ dumps ys"
  by (induction xs rule: dumps.induct) simp_all
lemma command_runs_append [simp]: "command_runs (xs @ ys) = command_runs xs @ command_runs ys"
  by (induction xs rule: command_runs.induct) simp_all
lemma dumps_command_runs: "dumps tr = map (\<lambda>(c, out, err). (c, err)) (command_runs tr)"
  by (induction tr rule: dumps.induct) simp_all
lemma schedule_append [simp]: "schedule (xs @ ys) = schedule xs @ schedule ys"
  by (induction xs rule: schedule.induct) simp_all

text \<open>The events a sweep adds.\<close>

lemma sweep_events:
  "\<exists>evs. sweep w cfg lim entries tr = tr @ evs
     \<and> map fst (removes evs) =
         map (\<lambda>e. filepath_Join (OutputDir (Backup cfg)) (entry_Name e))
           (filter (\<lambda>e. \<not> IsDir e \<and> (case Info e of Inl err \<Rightarrow> False
                                            | Inr info \<Rightarrow> Before (ModTime info) lim)) entries)
     \<and> logs evs = map removal_report (removes evs)
     \<and> readdirs evs = [] \<and> dumps evs = [] \<and> schedule evs = []"
proof (induction entries arbitrary: tr)
  case Nil
  then show ?case by simp
next
  case (Cons entry entries)
  show ?case
  proof (cases "IsDir entry")
    case True
    with Cons.IH [of tr] show ?thesis by simp
  next
    case notdir: False
    show ?thesis
    proof (cases "Info entry")
      case (Inl err)
      with notdir Cons.IH [of tr] show ?thesis by simp
    next
      case (Inr info)
      show ?thesis
      proof (cases "Before (ModTime info) lim")
        case False
        with notdir Inr Cons.IH [of tr] show ?thesis by simp
      next
        case True
        define path where "path = filepath_Join (OutputDir (Backup cfg)) (entry_Name entry)"
        define r where "r = os_Remove w tr path"
        define step where "step = [Remove path r, Logged (removal_report (path, r))]"
        have unfold: "sweep w cfg lim (entry # entries) tr = sweep w cfg lim entries (tr @ step)"
          using notdir Inr True by (cases r) (simp_all add: path_def r_def step_def Let_def)
        obtain evs where evs: "sweep w cfg lim entries (tr @ step) = (tr @ step) @ evs"
          "map fst (removes evs) =
             map (\<lambda>e. filepath_Join (OutputDir (Backup cfg)) (entry_Name e))
               (filter (\<lambda>e. \<not> IsDir e \<and> (case Info e of Inl err \<Rightarrow> False
                                            | Inr info \<Rightarrow> Before (ModTime info) lim)) entries)"
          "logs evs = map removal_report (removes evs)"
          "readdirs evs = []" "dumps evs = []" "schedule evs = []"
          using Cons.IH [of "tr @ step"] by blast
        have "sweep w cfg lim (entry # entries) tr = tr @ (step @ evs)"
          using unfold evs(1) by simp
        moreover have "map fst (removes (step @ evs)) =
             map (\<lambda>e. filepath_Join (OutputDir (Backup cfg)) (entry_Name e))
               (filter (\<lambda>e. \<not> IsDir e \<and> (case Info e of Inl err \<Rightarrow> False
                                            | Inr info \<Rightarrow> Before (ModTime info) lim)) (entry # entries))"
          using notdir Inr True evs(2) by (simp add: step_def path_def)
        moreover have "logs (step @ evs) = map removal_report (removes (step @ evs))"
          using evs(3) by (simp add: step_def)
        moreover have "readdirs (step @ evs) = []" "dumps (step @ evs) = []" "schedule (step @ evs) = []"
          using evs(4,5,6) by (simp_all add: step_def)
        ultimately show ?thesis by blast
      qed
    qed
  qed
qed

lemma sweep_skips_directories:
  "sweep w cfg lim entries tr = sweep w cfg lim (filter (\<lambda>e. \<not> IsDir e) entries) tr"
  by (induction entries arbitrary: tr) (auto split: sum.splits option.splits simp: Let_def)

lemma cleanup_listing_failed:
  "os_ReadDir w tr (OutputDir (Backup cfg)) = Inl err \<Longrightarrow>
   cleanupOldBackups w cfg tr =
     (tr @ [ReadDir (OutputDir (Backup cfg)) (Inl err)],
      Some (''failed to read backup directory: '' @ err))"
  by (simp add: cleanupOldBackups_def Let_def)

lemma cleanup_listing_ok:
  assumes "os_ReadDir w tr (OutputDir (Backup cfg)) = Inr entries"
  shows "cleanupOldBackups w cfg tr =
     (sweep w cfg
        (cutoff cfg (time_Now w (tr @ [ReadDir (OutputDir (Backup cfg)) (Inr entries)])))
        entries
        (tr @ [ReadDir (OutputDir (Backup cfg)) (Inr entries),
               Now (time_Now w (tr @ [ReadDir (OutputDir (Backup cfg)) (Inr entries)]))]),
      None)"
  using assms by (simp add: cleanupOldBackups_def Let_def)

lemma cleanup_events:
  "\<exists>evs. fst (cleanupOldBackups w cfg tr) = tr @ evs
     \<and> readdirs evs = [OutputDir (Backup cfg)] \<and> dumps evs = [] \<and> schedule evs = []"
proof (cases "os_ReadDir w tr (OutputDir (Backup cfg))")
  case (Inl err)
  then show ?thesis by (simp add: cleanup_listing_failed)
next
  case (Inr entries)
  define tr2 where "tr2 = tr @ [ReadDir (OutputDir (Backup cfg)) (Inr entries),
               Now (time_Now w (tr @ [ReadDir (OutputDir (Backup cfg)) (Inr entries)]))]"
  define c where "c = cutoff cfg (time_Now w (tr @ [ReadDir (OutputDir (Backup cfg)) (Inr entries)]))"
  obtain evs where evs: "sweep w cfg c entries tr2 = tr2 @ evs" "readdirs evs = []"
     "dumps evs = []" "schedule evs = []"
    using sweep_events [of w cfg c entries tr2] by blast
  have "fst (cleanupOldBackups w cfg tr) = tr2 @ evs"
    using cleanup_listing_ok [OF Inr] evs(1) by (simp add: tr2_def c_def)
  then have "fst (cleanupOldBackups w cfg tr) =
    tr @ ([ReadDir (OutputDir (Backup cfg)) (Inr entries),
               Now (time_Now w (tr @ [ReadDir (OutputDir (Backup cfg)) (Inr entries)]))] @ evs)"
    by (simp add: tr2_def)
  moreover have "readdirs ([ReadDir (OutputDir (Backup cfg)) (Inr entries),
               Now (time_Now w (tr @ [ReadDir (OutputDir (Backup cfg)) (Inr entries)]))] @ evs) = [OutputDir (Backup cfg)]"
    using evs(2) by simp
  moreover have "dumps ([ReadDir (OutputDir (Backup cfg)) (Inr entries),
               Now (time_Now w (tr @ [ReadDir (OutputDir (Backup cfg)) (Inr entries)]))] @ evs) = []"
    using evs(3) by simp
  moreover have "schedule ([ReadDir (OutputDir (Backup cfg)) (Inr entries),
               Now (time_Now w (tr @ [ReadDir (OutputDir (Backup cfg)) (Inr entries)]))] @ evs) = []"
    using evs(4) by simp
  ultimately show ?thesis by blast
qed

text \<open>The history up to the run of the dump command, and the run.\<close>

lemma before_dump_events:
  "\<exists>evs. before_dump w cfg tr = tr @ evs \<and> readdirs evs = [] \<and> dumps evs = []
     \<and> schedule evs = [] \<and> removes evs = []"
  by (simp add: before_dump_def)

lemma performBackup_dump_failed:
  assumes "run_CombinedOutput w (before_dump w cfg tr) (dump_cmd w cfg (backup_now w tr)) = (out, Some e)"
  shows "performBackup w cfg tr =
     (before_dump w cfg tr @ [CombinedOutput (dump_cmd w cfg (backup_now w tr)) out (Some e)],
      Some (''pg_dump failed: '' @ e @ '', output: '' @ out))"
  using assms by (simp add: performBackup_def before_dump_def backup_now_def Let_def)

lemma performBackup_dump_ok:
  assumes "run_CombinedOutput w (before_dump w cfg tr) (dump_cmd w cfg (backup_now w tr)) = (out, None)"
  shows "\<exists>evs. performBackup w cfg tr =
     (before_dump w cfg tr
        @ [CombinedOutput (dump_cmd w cfg (backup_now w tr)) out None,
           Logged (''Backup completed successfully: '' @ outputPath cfg (backup_now w tr))]
        @ evs, None)
     \<and> readdirs evs = [OutputDir (Backup cfg)] \<and> dumps evs = [] \<and> schedule evs = []"
proof -
  define tr5 where "tr5 = before_dump w cfg tr
        @ [CombinedOutput (dump_cmd w cfg (backup_now w tr)) out None,
           Logged (''Backup completed successfully: '' @ outputPath cfg (backup_now w tr))]"
  obtain evs where evs: "fst (cleanupOldBackups w cfg tr5) = tr5 @ evs"
     "readdirs evs = [OutputDir (Backup cfg)]" "dumps evs = []" "schedule evs = []"
    using cleanup_events [of w cfg tr5] by blast
  obtain tr6 cerr where c: "cleanupOldBackups w cfg tr5 = (tr6, cerr)"
    by (cases "cleanupOldBackups w cfg tr5")
  with evs(1) have tr6: "tr6 = tr5 @ evs" by simp
  have pb: "performBackup w cfg tr =
      (case cerr of Some e \<Rightarrow> (tr6 @ [Logged (''Warning: Failed to cleanup old backups: '' @ e)], None)
                 | None \<Rightarrow> (tr6, None))"
    using assms c
    by (simp add: performBackup_def before_dump_def backup_now_def tr5_def Let_def split: option.split)
  show ?thesis
  proof (cases cerr)
    case None
    with pb tr6 have "performBackup w cfg tr = (tr5 @ evs, None)" by simp
    then have "performBackup w cfg tr =
     (before_dump w cfg tr
        @ [CombinedOutput (dump_cmd w cfg (backup_now w tr)) out None,
           Logged (''Backup completed successfully: '' @ outputPath cfg (backup_now w tr))]
        @ evs, None)" by (simp add: tr5_def)
    with evs(2,3,4) show ?thesis by (intro exI [of _ evs]) simp
  next
    case (Some e)
    define evs' where "evs' = evs @ [Logged (''Warning: Failed to cleanup old backups: '' @ e)]"
    from Some pb tr6 have "performBackup w cfg tr = (tr5 @ evs', None)" by (simp add: evs'_def)
    then have "performBackup w cfg tr =
     (before_dump w cfg tr
        @ [CombinedOutput (dump_cmd w cfg (backup_now w tr)) out None,
           Logged (''Backup completed successfully: '' @ outputPath cfg (backup_now w tr))]
        @ evs', None)" by (simp add: tr5_def)
    moreover have "readdirs evs' = [OutputDir (Backup cfg)]" "dumps evs' = []" "schedule evs' = []"
      using evs(2,3,4) by (simp_all add: evs'_def)
    ultimately show ?thesis by (intro exI [of _ evs']) simp
  qed
qed

lemma performBackup_events:
  "\<exists>evs out err. fst (performBackup w cfg tr) = tr @ evs
     \<and> dumps evs = [(dump_cmd w cfg (backup_now w tr), err)]
     \<and> schedule evs = [Dump_step]
     \<and> readdirs evs = (if err = None then [OutputDir (Backup cfg)] else [])
     \<and> snd (performBackup w cfg tr) =
         (case err of None \<Rightarrow> None
          | Some e \<Rightarrow> Some (''pg_dump failed: '' @ e @ '', output: '' @ out))
     \<and> (if err = None then True else removes evs = [])"
proof -
  define c where "c = dump_cmd w cfg (backup_now w tr)"
  obtain out err where r: "run_CombinedOutput w (before_dump w cfg tr) c = (out, err)"
    by (cases "run_CombinedOutput w (before_dump w cfg tr) c")
  obtain pre where pre: "before_dump w cfg tr = tr @ pre" "readdirs pre = []" "dumps pre = []"
     "schedule pre = []" "removes pre = []"
    using before_dump_events [of w cfg tr] by blast
  show ?thesis
  proof (cases err)
    case (Some e)
    define evs where "evs = pre @ [CombinedOutput c out (Some e)]"
    have "performBackup w cfg tr =
       (tr @ evs, Some (''pg_dump failed: '' @ e @ '', output: '' @ out))"
      using performBackup_dump_failed [of w cfg tr out e] r Some pre(1)
      by (simp add: c_def evs_def)
    moreover have "dumps evs = [(c, Some e)]" "schedule evs = [Dump_step]" "readdirs evs = []"
       "removes evs = []"
      using pre by (simp_all add: evs_def)
    ultimately show ?thesis
      unfolding c_def [symmetric]
      by (intro exI [of _ evs] exI [of _ out] exI [of _ "Some e"]) simp
  next
    case None
    obtain evs0 where evs0: "performBackup w cfg tr =
     (before_dump w cfg tr
        @ [CombinedOutput c out None,
           Logged (''Backup completed successfully: '' @ outputPath cfg (backup_now w tr))]
        @ evs0, None)" "readdirs evs0 = [OutputDir (Backup cfg)]" "dumps evs0 = []" "schedule evs0 = []"
      using performBackup_dump_ok [of w cfg tr out] r None unfolding c_def by blast
    define evs where "evs = pre @ [CombinedOutput c out None,
           Logged (''Backup completed successfully: '' @ outputPath cfg (backup_now w tr))] @ evs0"
    have "performBackup w cfg tr = (tr @ evs, None)"
      using evs0(1) pre(1) by (simp add: evs_def)
    moreover have "dumps evs = [(c, None)]" "schedule evs = [Dump_step]"
       "readdirs evs = [OutputDir (Backup cfg)]"
      using pre evs0 by (simp_all add: evs_def)
    ultimately show ?thesis
      unfolding c_def [symmetric]
      by (intro exI [of _ evs] exI [of _ out] exI [of _ None]) simp
  qed
qed

text \<open>A backup whose failure is logged.\<close>

lemma backup_logged_failed:
  "snd (performBackup w cfg tr) = Some e \<Longrightarrow>
   backup_logged w cfg prefix tr = fst (performBackup w cfg tr) @ [Logged (prefix @ e)]"
  by (cases "performBackup w cfg tr") (simp add: backup_logged_def)

lemma backup_logged_ok:
  "snd (performBackup w cfg tr) = None \<Longrightarrow>
   backup_logged w cfg prefix tr = fst (performBackup w cfg tr)"
  by (cases "performBackup w cfg tr") (simp add: backup_logged_def)

lemma backup_logged_events:
  "\<exists>evs. backup_logged w cfg prefix tr = tr @ evs \<and> schedule evs = [Dump_step]
      \<and> length (dumps evs) = 1"
proof -
  obtain evs err where evs: "fst (performBackup w cfg tr) = tr @ evs"
     "dumps evs = [(dump_cmd w cfg (backup_now w tr), err)]"
     "schedule evs = [Dump_step]"
    using performBackup_events [of w cfg tr] by blast
  show ?thesis
  proof (cases "snd (performBackup w cfg tr)")
    case None
    with evs show ?thesis by (simp add: backup_logged_ok)
  next
    case (Some e)
    then have "backup_logged w cfg prefix tr = tr @ (evs @ [Logged (prefix @ e)])"
      using evs(1) by (simp add: backup_logged_failed)
    with evs(2,3) show ?thesis by (intro exI [of _ "evs @ [Logged (prefix @ e)]"]) simp
  qed
qed

text \<open>The loop, one tick more.\<close>

lemma ticks_last:
  "ticks w cfg (Suc n) tr = backup_logged w cfg ''Backup failed: '' (ticks w cfg n tr @ [Tick])"
proof (induction n arbitrary: tr)
  case 0
  show ?case by simp
next
  case (Suc n)
  have "ticks w cfg (Suc (Suc n)) tr
      = ticks w cfg (Suc n) (backup_logged w cfg ''Backup failed: '' (tr @ [Tick]))"
    by (rule ticks.simps(2))
  also have "\<dots> = backup_logged w cfg ''Backup failed: ''
      (ticks w cfg n (backup_logged w cfg ''Backup failed: '' (tr @ [Tick])) @ [Tick])"
    by (rule Suc.IH)
  also have "ticks w cfg n (backup_logged w cfg ''Backup failed: '' (tr @ [Tick])) = ticks w cfg (Suc n) tr"
    by (rule ticks.simps(2) [symmetric])
  finally show ?case .
qed

lemma concat_replicate_snoc: "concat (replicate n xs) @ xs = concat (replicate (Suc n) xs)"
  by (induction n) simp_all

lemma ticks_events:
  "\<exists>evs. ticks w cfg n tr = tr @ evs
      \<and> schedule evs = concat (replicate n [Tick_step, Dump_step])
      \<and> length (dumps evs) = n"
proof (induction n)
  case 0
  show ?case by simp
next
  case (Suc n)
  then obtain evs where evs: "ticks w cfg n tr = tr @ evs"
      "schedule evs = concat (replicate n [Tick_step, Dump_step])" "length (dumps evs) = n"
    by blast
  obtain evs1 where evs1:
      "backup_logged w cfg ''Backup failed: '' ((tr @ evs) @ [Tick]) = ((tr @ evs) @ [Tick]) @ evs1"
      "schedule evs1 = [Dump_step]" "length (dumps evs1) = 1"
    using backup_logged_events [of w cfg "''Backup failed: ''" "(tr @ evs) @ [Tick]"] by blast
  have "ticks w cfg (Suc n) tr = tr @ (evs @ Tick # evs1)"
    unfolding ticks_last evs(1) evs1(1) by simp
  moreover have "schedule (evs @ Tick # evs1) = concat (replicate (Suc n) [Tick_step, Dump_step])"
    using evs(2) evs1(2) concat_replicate_snoc [of n "[Tick_step, Dump_step]"] by simp
  moreover have "length (dumps (evs @ Tick # evs1)) = Suc n"
    using evs(3) evs1(3) by simp
  ultimately show ?case by blast
qed

text \<open>\<^verbatim>\<open>Start\<close>, by the outcome of creating the directory.\<close>

lemma Start_mkdir_failed:
  assumes "os_MkdirAll w (tr @ [Logged ''Starting backup tool...'']) (OutputDir (Backup cfg)) = Some e"
  shows "Start w cfg n tr =
     (tr @ [Logged ''Starting backup tool...'', MkdirAll (OutputDir (Backup cfg)) (Some e)],
      Returned (Some (''failed to create output directory: '' @ e)))"
  using assms by (simp add: Start_def Let_def)

lemma Start_mkdir_ok:
  assumes "os_MkdirAll w (tr @ [Logged ''Starting backup tool...'']) (OutputDir (Backup cfg)) = None"
  shows "Start w cfg n tr =
     (if Frequency (Backup cfg) \<le> 0
      then (initial_backup w cfg tr, Panicked ''non-positive interval for NewTicker'')
      else (ticks w cfg n (initial_backup w cfg tr @ [NewTicker (Frequency (Backup cfg))]), Waiting))"
  using assms by (simp add: Start_def initial_backup_def Let_def)

lemma initial_backup_events:
  "\<exists>evs. initial_backup w cfg tr = tr @ evs \<and> schedule evs = [Mkdir_step, Dump_step]
      \<and> length (dumps evs) = 1"
proof -
  define tr2 where "tr2 = tr @ [Logged ''Starting backup tool...'', MkdirAll (OutputDir (Backup cfg)) None]"
  obtain evs where evs: "backup_logged w cfg ''Initial backup failed: '' tr2 = tr2 @ evs"
     "schedule evs = [Dump_step]" "length (dumps evs) = 1"
    using backup_logged_events [of w cfg "''Initial backup failed: ''" tr2] by blast
  have "initial_backup w cfg tr =
        tr @ ([Logged ''Starting backup tool...'', MkdirAll (OutputDir (Backup cfg)) None] @ evs)"
    unfolding initial_backup_def tr2_def [symmetric] evs(1) by (simp add: tr2_def)
  with evs(2,3) show ?thesis
    by (intro exI [of _ "[Logged ''Starting backup tool...'', MkdirAll (OutputDir (Backup cfg)) None] @ evs"]) simp
qed

subsection \<open>The calendar\<close>

text \<open>
  The day count of a date, cut into cycles of 400, 100, 4 and 1 years, and back: the date
  of a day count gives that day count again, and later days have later dates.
\<close>


lemma div4: "0 \<le> e \<Longrightarrow> e \<le> 3 \<Longrightarrow> (400 * a + 100 * b + 4 * c + e) div 4 = 100 * a + 25 * b + (c::int)"
  by (rule int_div_pos_eq [where r = e]) simp_all
lemma div100: "0 \<le> b \<Longrightarrow> b \<le> 3 \<Longrightarrow> 0 \<le> c \<Longrightarrow> c \<le> 24 \<Longrightarrow> 0 \<le> e \<Longrightarrow> e \<le> 3 \<Longrightarrow> (400 * a + 100 * b + 4 * c + e) div 100 = 4 * a + (b::int)"
  by (rule int_div_pos_eq [where r = "4 * c + e"]) simp_all
lemma div400: "0 \<le> b \<Longrightarrow> b \<le> 3 \<Longrightarrow> 0 \<le> c \<Longrightarrow> c \<le> 24 \<Longrightarrow> 0 \<le> e \<Longrightarrow> e \<le> 3 \<Longrightarrow> (400 * a + 100 * b + 4 * c + e) div 400 = (a::int)"
  by (rule int_div_pos_eq [where r = "100 * b + 4 * c + e"]) simp_all

lemma days_before_year_cycles:
  assumes "0 \<le> b" "b \<le> 3" "0 \<le> c" "c \<le> 24" "0 \<le> e" "e \<le> 3"
  shows "days_before_year (400 * a + 100 * b + 4 * c + e + 1) = 146097 * a + 36524 * b + 1461 * c + 365 * e"
  using assms by (simp add: days_before_year_def Let_def div4 div100 div400)

lemma mod_zero_iff: "0 \<le> r \<Longrightarrow> r < k \<Longrightarrow> x = k * q + r \<Longrightarrow> (x mod k = 0) = (r = (0::int))"
  using int_mod_pos_eq [of x k q r] by simp

lemma isLeap_cycles:
  assumes "0 \<le> b" "b \<le> 3" "0 \<le> c" "c \<le> 24" "0 \<le> e" "e \<le> 3"
  shows "isLeap (400 * a + 100 * b + 4 * c + e + 1) = (e = 3 \<and> (c \<noteq> 24 \<or> b = 3))"
proof (cases "e = 3")
  case False
  have "((400 * a + 100 * b + 4 * c + e + 1) mod 4 = 0) = (e + 1 = 0)"
    using assms False by (intro mod_zero_iff [where q = "100 * a + 25 * b + c"]) simp_all
  with assms False show ?thesis by (simp add: isLeap_def)
next
  case e3: True
  have m4: "(400 * a + 100 * b + 4 * c + e + 1) mod 4 = 0"
    using e3 by (simp add: mod_zero_iff [where q = "100 * a + 25 * b + c + 1" and r = 0])
  show ?thesis
  proof (cases "c = 24")
    case False
    have "((400 * a + 100 * b + 4 * c + e + 1) mod 100 = 0) = (4 * c + 4 = 0)"
      using assms False e3 by (intro mod_zero_iff [where q = "4 * a + b"]) simp_all
    with assms False e3 m4 show ?thesis by (simp add: isLeap_def)
  next
    case c24: True
    have m100: "(400 * a + 100 * b + 4 * c + e + 1) mod 100 = 0"
      using e3 c24 by (simp add: mod_zero_iff [where q = "4 * a + b + 1" and r = 0])
    show ?thesis
    proof (cases "b = 3")
      case False
      have "((400 * a + 100 * b + 4 * c + e + 1) mod 400 = 0) = (100 * b + 100 = 0)"
        using assms False e3 c24 by (intro mod_zero_iff [where q = "a"]) simp_all
      with assms False e3 c24 m4 m100 show ?thesis by (simp add: isLeap_def)
    next
      case True
      have "(400 * a + 100 * b + 4 * c + e + 1) mod 400 = 0"
        using e3 c24 True by (simp add: mod_zero_iff [where q = "a + 1" and r = 0])
      with e3 c24 True m4 show ?thesis by (simp add: isLeap_def)
    qed
  qed
qed


lemma cut_cycle:
  fixes x :: int
  assumes "0 \<le> x" "x \<le> 4 * k" "0 < k"
  shows "0 \<le> x div k - x div k div 4" "x div k - x div k div 4 \<le> 3"
    "0 \<le> x - k * (x div k - x div k div 4)"
    "x - k * (x div k - x div k div 4) \<le> k"
    "x - k * (x div k - x div k div 4) = k \<Longrightarrow> x = 4 * k"
    "x div k - x div k div 4 < 3 \<Longrightarrow> x - k * (x div k - x div k div 4) < k"
proof -
  define q where "q = x div k"
  have q0: "0 \<le> q" using assms by (simp add: q_def pos_imp_zdiv_nonneg_iff)
  have "x div k \<le> (4 * k) div k" using assms by (intro zdiv_mono1) simp_all
  then have q4: "q \<le> 4" using assms by (simp add: q_def)
  have lo: "k * q \<le> x"
    unfolding q_def using assms pos_mod_sign [of k x] mult_div_mod_eq [of k x] by linarith
  have hi: "x < k * q + k"
    unfolding q_def using assms pos_mod_bound [of k x] mult_div_mod_eq [of k x] by linarith
  consider "q = 0" | "q = 1" | "q = 2" | "q = 3" | "q = 4" using q0 q4 by linarith
  then have "0 \<le> q - q div 4 \<and> q - q div 4 \<le> 3 \<and> 0 \<le> x - k * (q - q div 4)
     \<and> x - k * (q - q div 4) \<le> k \<and> (x - k * (q - q div 4) = k \<longrightarrow> x = 4 * k)
     \<and> (q - q div 4 < 3 \<longrightarrow> x - k * (q - q div 4) < k)"
  proof cases
    case 1 with lo hi assms show ?thesis by simp
  next
    case 2 with lo hi assms show ?thesis by simp
  next
    case 3 with lo hi assms show ?thesis by simp
  next
    case 4 with lo hi assms show ?thesis by simp
  next
    case 5 with lo hi assms show ?thesis by simp
  qed
  then show "0 \<le> x div k - x div k div 4" "x div k - x div k div 4 \<le> 3"
    "0 \<le> x - k * (x div k - x div k div 4)"
    "x - k * (x div k - x div k div 4) \<le> k"
    "x - k * (x div k - x div k div 4) = k \<Longrightarrow> x = 4 * k"
    "x div k - x div k div 4 < 3 \<Longrightarrow> x - k * (x div k - x div k div 4) < k"
    unfolding q_def by blast+
qed


lemma civil_of_days_year:
  "\<exists>y yday. civil_of_days d = (y, month_day (isLeap y) yday) \<and> d = days_before_year y + yday
      \<and> 0 \<le> yday \<and> yday < (if isLeap y then 366 else 365)"
proof -
  define a where "a = d div 146097"
  define d1 where "d1 = d - 146097 * a"
  define b where "b = d1 div 36524 - d1 div 36524 div 4"
  define d2 where "d2 = d1 - 36524 * b"
  define c where "c = d2 div 1461"
  define d3 where "d3 = d2 - 1461 * c"
  define e where "e = d3 div 365 - d3 div 365 div 4"
  define yday where "yday = d3 - 365 * e"
  define y where "y = 400 * a + 100 * b + 4 * c + e + 1"
  have d1_mod: "d1 = d mod 146097"
    unfolding d1_def a_def by (simp add: minus_mult_div_eq_mod)
  have d1: "0 \<le> d1" "d1 \<le> 4 * 36524"
    using pos_mod_sign [of 146097 d] pos_mod_bound [of 146097 d] unfolding d1_mod by simp_all
  have k1: "(0::int) < 36524" by simp
  note cc1 = cut_cycle [OF d1 k1, folded b_def, folded d2_def]
  have b: "0 \<le> b" "b \<le> 3" by (rule cc1(1), rule cc1(2))
  have d2: "0 \<le> d2" "d2 \<le> 36524" by (rule cc1(3), rule cc1(4))
  have d2_b: "b < 3 \<Longrightarrow> d2 < 36524" by (rule cc1(6))
  have d3_mod: "d3 = d2 mod 1461"
    unfolding d3_def c_def by (simp add: minus_mult_div_eq_mod)
  have c0: "0 \<le> c" using d2 by (simp add: c_def pos_imp_zdiv_nonneg_iff)
  have "d2 div 1461 \<le> 36524 div 1461" using d2 by (intro zdiv_mono1) simp_all
  then have c24: "c \<le> 24" by (simp add: c_def)
  have d3: "0 \<le> d3" "d3 \<le> 4 * 365"
    using pos_mod_sign [of 1461 d2] pos_mod_bound [of 1461 d2] unfolding d3_mod by simp_all
  have k2: "(0::int) < 365" by simp
  note cc2 = cut_cycle [OF d3 k2, folded e_def, folded yday_def]
  have e: "0 \<le> e" "e \<le> 3" by (rule cc2(1), rule cc2(2))
  have yday: "0 \<le> yday" "yday \<le> 365" by (rule cc2(3), rule cc2(4))
  have yday_d3: "yday = 365 \<Longrightarrow> d3 = 4 * 365" by (rule cc2(5))
  have yday_e: "e < 3 \<Longrightarrow> yday < 365" by (rule cc2(6))
  have leap: "isLeap y = (e = 3 \<and> (c \<noteq> 24 \<or> b = 3))"
    unfolding y_def using b c0 c24 e by (rule isLeap_cycles)
  have "days_before_year y = 146097 * a + 36524 * b + 1461 * c + 365 * e"
    unfolding y_def using b c0 c24 e by (rule days_before_year_cycles)
  then have sum: "d = days_before_year y + yday"
    by (simp add: yday_def d3_def d2_def d1_def)
  have bound: "yday < (if isLeap y then 366 else 365)"
  proof (cases "yday = 365")
    case False
    with yday show ?thesis by simp
  next
    case True
    then have e3: "e = 3" using yday_e e by linarith
    have "c = 24 \<Longrightarrow> b = 3"
    proof -
      assume "c = 24"
      with yday_d3 [OF True] have "d2 = 36524" by (simp add: d3_def)
      with d2_b b show "b = 3" by linarith
    qed
    with e3 leap True show ?thesis by auto
  qed
  have "civil_of_days d = (y, month_day (isLeap y) yday)"
    unfolding civil_of_days_def Let_def
    unfolding a_def [symmetric] d1_def [symmetric] b_def [symmetric] d2_def [symmetric]
      c_def [symmetric] d3_def [symmetric] e_def [symmetric] yday_def [symmetric] y_def [symmetric]
    by (simp split: prod.split)
  with sum yday(1) bound show ?thesis by blast
qed


lemma month_estimate:
  assumes "0 \<le> day" "day \<le> 364"
  shows "snd (month_estimate day) = daysBefore (fst (month_estimate day))
     \<and> fst (month_estimate day) \<le> 11
     \<and> daysBefore (fst (month_estimate day)) \<le> day
     \<and> day < daysBefore (Suc (fst (month_estimate day)))"
proof -
  define q where "q = day div 31"
  have lo: "31 * q \<le> day"
    unfolding q_def using pos_mod_sign [of 31 day] mult_div_mod_eq [of 31 day] by linarith
  have hi: "day < 31 * q + 31"
    unfolding q_def using pos_mod_bound [of 31 day] mult_div_mod_eq [of 31 day] by linarith
  have "0 \<le> q" "q \<le> 11" using lo hi assms by linarith+
  then consider "q = 0" | "q = 1" | "q = 2" | "q = 3" | "q = 4" | "q = 5" | "q = 6" | "q = 7" | "q = 8" | "q = 9" | "q = 10" | "q = 11" by atomize_elim presburger
  then show ?thesis
  proof cases
    case 1
    then have n: "nat (day div 31) = 0" by (simp add: q_def)
    have "month_estimate day = (if 31 \<le> day then (1, 31) else (0, 0))"
      unfolding month_estimate_def Let_def n by (simp add: daysBefore_def)
    moreover have "0 \<le> day" "day < 31" using lo hi assms 1 by simp_all
    ultimately show ?thesis by (simp add: daysBefore_def)
  next
    case 2
    then have n: "nat (day div 31) = 1" by (simp add: q_def)
    have "month_estimate day = (if 59 \<le> day then (2, 59) else (1, 31))"
      unfolding month_estimate_def Let_def n by (simp add: daysBefore_def)
    moreover have "31 \<le> day" "day < 62" using lo hi assms 2 by simp_all
    ultimately show ?thesis by (simp add: daysBefore_def)
  next
    case 3
    then have n: "nat (day div 31) = 2" by (simp add: q_def)
    have "month_estimate day = (if 90 \<le> day then (3, 90) else (2, 59))"
      unfolding month_estimate_def Let_def n by (simp add: daysBefore_def)
    moreover have "62 \<le> day" "day < 93" using lo hi assms 3 by simp_all
    ultimately show ?thesis by (simp add: daysBefore_def)
  next
    case 4
    then have n: "nat (day div 31) = 3" by (simp add: q_def)
    have "month_estimate day = (if 120 \<le> day then (4, 120) else (3, 90))"
      unfolding month_estimate_def Let_def n by (simp add: daysBefore_def)
    moreover have "93 \<le> day" "day < 124" using lo hi assms 4 by simp_all
    ultimately show ?thesis by (simp add: daysBefore_def)
  next
    case 5
    then have n: "nat (day div 31) = 4" by (simp add: q_def)
    have "month_estimate day = (if 151 \<le> day then (5, 151) else (4, 120))"
      unfolding month_estimate_def Let_def n by (simp add: daysBefore_def)
    moreover have "124 \<le> day" "day < 155" using lo hi assms 5 by simp_all
    ultimately show ?thesis by (simp add: daysBefore_def)
  next
    case 6
    then have n: "nat (day div 31) = 5" by (simp add: q_def)
    have "month_estimate day = (if 181 \<le> day then (6, 181) else (5, 151))"
      unfolding month_estimate_def Let_def n by (simp add: daysBefore_def)
    moreover have "155 \<le> day" "day < 186" using lo hi assms 6 by simp_all
    ultimately show ?thesis by (simp add: daysBefore_def)
  next
    case 7
    then have n: "nat (day div 31) = 6" by (simp add: q_def)
    have "month_estimate day = (if 212 \<le> day then (7, 212) else (6, 181))"
      unfolding month_estimate_def Let_def n by (simp add: daysBefore_def)
    moreover have "186 \<le> day" "day < 217" using lo hi assms 7 by simp_all
    ultimately show ?thesis by (simp add: daysBefore_def)
  next
    case 8
    then have n: "nat (day div 31) = 7" by (simp add: q_def)
    have "month_estimate day = (if 243 \<le> day then (8, 243) else (7, 212))"
      unfolding month_estimate_def Let_def n by (simp add: daysBefore_def)
    moreover have "217 \<le> day" "day < 248" using lo hi assms 8 by simp_all
    ultimately show ?thesis by (simp add: daysBefore_def)
  next
    case 9
    then have n: "nat (day div 31) = 8" by (simp add: q_def)
    have "month_estimate day = (if 273 \<le> day then (9, 273) else (8, 243))"
      unfolding month_estimate_def Let_def n by (simp add: daysBefore_def)
    moreover have "248 \<le> day" "day < 279" using lo hi assms 9 by simp_all
    ultimately show ?thesis by (simp add: daysBefore_def)
  next
    case 10
    then have n: "nat (day div 31) = 9" by (simp add: q_def)
    have "month_estimate day = (if 304 \<le> day then (10, 304) else (9, 273))"
      unfolding month_estimate_def Let_def n by (simp add: daysBefore_def)
    moreover have "279 \<le> day" "day < 310" using lo hi assms 10 by simp_all
    ultimately show ?thesis by (simp add: daysBefore_def)
  next
    case 11
    then have n: "nat (day div 31) = 10" by (simp add: q_def)
    have "month_estimate day = (if 334 \<le> day then (11, 334) else (10, 304))"
      unfolding month_estimate_def Let_def n by (simp add: daysBefore_def)
    moreover have "310 \<le> day" "day < 341" using lo hi assms 11 by simp_all
    ultimately show ?thesis by (simp add: daysBefore_def)
  next
    case 12
    then have n: "nat (day div 31) = 11" by (simp add: q_def)
    have "month_estimate day = (if 365 \<le> day then (12, 365) else (11, 334))"
      unfolding month_estimate_def Let_def n by (simp add: daysBefore_def)
    moreover have "341 \<le> day" "day < 365" using lo hi assms 12 by simp_all
    ultimately show ?thesis by (simp add: daysBefore_def)
  qed
qed


lemma month_day_props:
  assumes "0 \<le> yday" "yday < (if leap then 366 else 365)"
  shows "\<exists>m dd. month_day leap yday = (m, dd) \<and> 1 \<le> m \<and> m \<le> 12 \<and> 1 \<le> dd \<and> dd \<le> 31
      \<and> monthStart leap m + (dd - 1) = yday \<and> yday < monthStart leap (m + 1)"
proof (cases "leap \<and> yday = 59")
  case True
  then show ?thesis by (simp add: month_day_def monthStart_def daysBefore_def)
next
  case False
  define day where "day = (if leap \<and> 59 < yday then yday - 1 else yday)"
  define m1 where "m1 = fst (month_estimate day)"
  have day_range: "0 \<le> day" "day \<le> 364"
    using assms False by (auto simp: day_def split: if_splits)
  have dayrel: "yday = (if leap \<and> 59 \<le> day then day + 1 else day)"
    using False by (auto simp: day_def)
  have est: "snd (month_estimate day) = daysBefore m1" "m1 \<le> 11" "daysBefore m1 \<le> day"
     "day < daysBefore (Suc m1)"
    using month_estimate [OF day_range] by (simp_all add: m1_def)
  have "month_day leap yday =
      (case month_estimate day of (m, begin_m) \<Rightarrow> (int m + 1, day - begin_m + 1))"
    using False by (cases "leap \<and> 59 < yday") (auto simp: month_day_def day_def Let_def)
  then have md: "month_day leap yday = (int m1 + 1, day - daysBefore m1 + 1)"
    using est(1) by (simp add: m1_def case_prod_beta)
  have "1 \<le> int m1 + 1 \<and> int m1 + 1 \<le> 12 \<and> 1 \<le> day - daysBefore m1 + 1
      \<and> day - daysBefore m1 + 1 \<le> 31
      \<and> monthStart leap (int m1 + 1) + (day - daysBefore m1 + 1 - 1) = yday
      \<and> yday < monthStart leap (int m1 + 1 + 1)"
  proof -
    consider "m1 = 0" | "m1 = 1" | "m1 = 2" | "m1 = 3" | "m1 = 4" | "m1 = 5" | "m1 = 6" | "m1 = 7" | "m1 = 8" | "m1 = 9" | "m1 = 10" | "m1 = 11" using est(2) by atomize_elim presburger
    then show ?thesis
    proof cases
    case 1
    with est day_range dayrel show ?thesis
      by (simp add: monthStart_def daysBefore_def)
    next
    case 2
    with est day_range dayrel show ?thesis
      by (simp add: monthStart_def daysBefore_def)
    next
    case 3
    with est day_range dayrel show ?thesis
      by (simp add: monthStart_def daysBefore_def)
    next
    case 4
    with est day_range dayrel show ?thesis
      by (simp add: monthStart_def daysBefore_def)
    next
    case 5
    with est day_range dayrel show ?thesis
      by (simp add: monthStart_def daysBefore_def)
    next
    case 6
    with est day_range dayrel show ?thesis
      by (simp add: monthStart_def daysBefore_def)
    next
    case 7
    with est day_range dayrel show ?thesis
      by (simp add: monthStart_def daysBefore_def)
    next
    case 8
    with est day_range dayrel show ?thesis
      by (simp add: monthStart_def daysBefore_def)
    next
    case 9
    with est day_range dayrel show ?thesis
      by (simp add: monthStart_def daysBefore_def)
    next
    case 10
    with est day_range dayrel show ?thesis
      by (simp add: monthStart_def daysBefore_def)
    next
    case 11
    with est day_range dayrel show ?thesis
      by (simp add: monthStart_def daysBefore_def)
    next
    case 12
    with est day_range dayrel show ?thesis
      by (simp add: monthStart_def daysBefore_def)
    qed
  qed
  with md show ?thesis by blast
qed


lemma civil_of_days_props:
  "\<exists>y m dd. civil_of_days d = (y, m, dd) \<and> 1 \<le> m \<and> m \<le> 12 \<and> 1 \<le> dd \<and> dd \<le> 31
      \<and> dateToDays y m dd = d
      \<and> d < days_before_year y + (if isLeap y then 366 else 365)
      \<and> days_before_year y + monthStart (isLeap y) m \<le> d
      \<and> d < days_before_year y + monthStart (isLeap y) (m + 1)"
proof -
  obtain y yday where y: "civil_of_days d = (y, month_day (isLeap y) yday)"
      "d = days_before_year y + yday" "0 \<le> yday" "yday < (if isLeap y then 366 else 365)"
    using civil_of_days_year [of d] by blast
  obtain m dd where m: "month_day (isLeap y) yday = (m, dd)" "1 \<le> m" "m \<le> 12" "1 \<le> dd"
      "dd \<le> 31" "monthStart (isLeap y) m + (dd - 1) = yday"
      "yday < monthStart (isLeap y) (m + 1)"
    using month_day_props [OF y(3,4)] by blast
  have "civil_of_days d = (y, m, dd)" using y(1) m(1) by simp
  moreover have "dateToDays y m dd = d" using y(2) m(6) by (simp add: dateToDays_def)
  moreover have "d < days_before_year y + (if isLeap y then 366 else 365)" using y(2,4) by simp
  moreover have "days_before_year y + monthStart (isLeap y) m \<le> d" using y(2) m(4,6) by linarith
  moreover have "d < days_before_year y + monthStart (isLeap y) (m + 1)" using y(2) m(7) by linarith
  ultimately show ?thesis using m(2-5) by blast
qed

lemma div_step:
  fixes y k :: int
  assumes "0 < k"
  shows "y div k = (y - 1) div k + (if y mod k = 0 then 1 else 0)"
proof (cases "y mod k = 0")
  case True
  have "(y - 1) div k = y div k - 1"
    using assms True mult_div_mod_eq [of k y]
    by (intro int_div_pos_eq [where r = "k - 1"]) (simp_all add: algebra_simps)
  with True show ?thesis by simp
next
  case False
  have "0 \<le> y mod k" "y mod k < k" using assms by simp_all
  with False have "(y - 1) div k = y div k"
    using mult_div_mod_eq [of k y]
    by (intro int_div_pos_eq [where r = "y mod k - 1"]) (simp_all add: algebra_simps)
  with False show ?thesis by simp
qed

lemma days_before_year_Suc:
  "days_before_year (y + 1) = days_before_year y + (if isLeap y then 366 else 365)"
proof -
  define P4 where "P4 \<longleftrightarrow> y mod 4 = 0"
  define P100 where "P100 \<longleftrightarrow> y mod 100 = 0"
  define P400 where "P400 \<longleftrightarrow> y mod 400 = 0"
  define q4 where "q4 = (y - 1) div 4"
  define q100 where "q100 = (y - 1) div 100"
  define q400 where "q400 = (y - 1) div 400"
  have imp: "P400 \<Longrightarrow> P100" "P100 \<Longrightarrow> P4"
    unfolding P4_def P100_def P400_def by presburger+
  have s4: "y div 4 = q4 + (if P4 then 1 else 0)"
    unfolding P4_def q4_def by (rule div_step) simp
  have s100: "y div 100 = q100 + (if P100 then 1 else 0)"
    unfolding P100_def q100_def by (rule div_step) simp
  have s400: "y div 400 = q400 + (if P400 then 1 else 0)"
    unfolding P400_def q400_def by (rule div_step) simp
  have leap: "isLeap y = (P4 \<and> (\<not> P100 \<or> P400))"
    by (simp add: isLeap_def P4_def P100_def P400_def)
  have a: "days_before_year (y + 1) = 365 * y + y div 4 - y div 100 + y div 400"
    by (simp add: days_before_year_def)
  have b: "days_before_year y = 365 * (y - 1) + q4 - q100 + q400"
    by (simp add: days_before_year_def Let_def q4_def q100_def q400_def)
  show ?thesis
    unfolding a b s4 s100 s400 leap using imp
    by (cases P4; cases P100; cases P400) simp_all
qed

lemma days_before_year_mono:
  assumes "y < y'"
  shows "days_before_year y + (if isLeap y then 366 else 365) \<le> days_before_year y'"
proof -
  have "days_before_year (y + 1) \<le> days_before_year (y + 1 + int n)" for n
  proof (induction n)
    case 0
    show ?case by simp
  next
    case (Suc n)
    have "days_before_year (y + 1 + int n) \<le> days_before_year (y + 1 + int n + 1)"
      unfolding days_before_year_Suc [of "y + 1 + int n"] by simp
    with Suc show ?case by (simp add: add.assoc)
  qed
  from this [of "nat (y' - y - 1)"] assms have "days_before_year (y + 1) \<le> days_before_year y'"
    by simp
  then show ?thesis by (simp add: days_before_year_Suc)
qed

lemma daysBefore_mono: "i \<le> j \<Longrightarrow> j \<le> 12 \<Longrightarrow> daysBefore i \<le> daysBefore j"
  unfolding daysBefore_def by (rule sorted_nth_mono) simp_all

lemma monthStart_mono:
  assumes "1 \<le> m" "m \<le> m'" "m' \<le> 13"
  shows "monthStart leap m \<le> monthStart leap m'"
proof -
  have "daysBefore (nat (m - 1)) \<le> daysBefore (nat (m' - 1))"
    using assms by (intro daysBefore_mono) simp_all
  with assms show ?thesis by (simp add: monthStart_def)
qed

lemma civil_of_days_mono:
  assumes "d1 < d2" "civil_of_days d1 = (y1, m1, dd1)" "civil_of_days d2 = (y2, m2, dd2)"
  shows "y1 < y2 \<or> (y1 = y2 \<and> (m1 < m2 \<or> (m1 = m2 \<and> dd1 < dd2)))"
proof -
  have p1: "1 \<le> m1" "m1 \<le> 12" "dateToDays y1 m1 dd1 = d1"
      "d1 < days_before_year y1 + (if isLeap y1 then 366 else 365)"
      "days_before_year y1 + monthStart (isLeap y1) m1 \<le> d1"
      "d1 < days_before_year y1 + monthStart (isLeap y1) (m1 + 1)"
    using civil_of_days_props [of d1] assms(2) by auto
  have p2: "1 \<le> m2" "m2 \<le> 12" "dateToDays y2 m2 dd2 = d2"
      "d2 < days_before_year y2 + (if isLeap y2 then 366 else 365)"
      "days_before_year y2 + monthStart (isLeap y2) m2 \<le> d2"
      "d2 < days_before_year y2 + monthStart (isLeap y2) (m2 + 1)"
    using civil_of_days_props [of d2] assms(3) by auto
  have ms0: "0 \<le> monthStart (isLeap y1) m1"
    using monthStart_mono [of 1 m1 "isLeap y1"] p1(1,2) by (simp add: monthStart_def daysBefore_def)
  have "\<not> y2 < y1"
  proof
    assume "y2 < y1"
    from days_before_year_mono [OF this] p2(4) have "d2 < days_before_year y1" by linarith
    with p1(5) ms0 assms(1) show False by linarith
  qed
  moreover have "m1 \<le> m2" if "y1 = y2"
  proof (rule ccontr)
    assume "\<not> m1 \<le> m2"
    then have "monthStart (isLeap y1) (m2 + 1) \<le> monthStart (isLeap y1) m1"
      using p1(2) p2(1) by (intro monthStart_mono) simp_all
    with p1(5) p2(6) that assms(1) show False by simp
  qed
  moreover have "dd1 < dd2" if "y1 = y2" "m1 = m2"
    using that p1(3) p2(3) assms(1) by (simp add: dateToDays_def)
  ultimately show ?thesis by force
qed

subsection \<open>Digits and the order of strings\<close>


lemma length_fixed_digits [simp]: "length (fixed_digits w n) = w"
  by (induction w arbitrary: n) simp_all

lemma fixed_digits_0: "fixed_digits w 0 = replicate w CHR ''0''"
  by (induction w) (simp_all add: digit_char_def replicate_append_same)

lemma digits_of_nat_fixed:
  "0 < w \<Longrightarrow> n < 10 ^ w \<Longrightarrow>
   length (digits_of_nat n) \<le> w
   \<and> replicate (w - length (digits_of_nat n)) CHR ''0'' @ digits_of_nat n = fixed_digits w n"
proof (induction w arbitrary: n)
  case 0
  then show ?case by simp
next
  case (Suc w)
  show ?case
  proof (cases "n < 10")
    case True
    then have "digits_of_nat n = [digit_char n]" by (simp add: digits_of_nat.simps)
    with True show ?thesis by (simp add: fixed_digits_0)
  next
    case False
    then have ds: "digits_of_nat n = digits_of_nat (n div 10) @ [digit_char (n mod 10)]"
      by (subst digits_of_nat.simps) simp
    have w: "0 < w"
    proof (rule ccontr)
      assume "\<not> 0 < w"
      with Suc.prems False show False by simp
    qed
    have "n div 10 < 10 ^ w" using Suc.prems by (simp add: less_mult_imp_div_less)
    from Suc.IH [OF w this]
    have IH: "length (digits_of_nat (n div 10)) \<le> w"
      "replicate (w - length (digits_of_nat (n div 10))) CHR ''0'' @ digits_of_nat (n div 10)
         = fixed_digits w (n div 10)" by simp_all
    show ?thesis using IH by (simp add: ds)
  qed
qed

lemma digit_char_less: "a < b \<Longrightarrow> b < 10 \<Longrightarrow> digit_char a < digit_char b"
proof -
  assume "a < b" "b < 10"
  then have "b \<in> {1,2,3,4,5,6,7,8,9}" "a < b" by auto
  then show ?thesis
    by (auto simp: digit_char_def less_Suc_eq numeral_eq_Suc)
qed

lemma append_less_left:
  fixes xs ys :: "'a::linorder list"
  shows "xs < ys \<Longrightarrow> length xs = length ys \<Longrightarrow> xs @ us < ys @ vs"
proof (induction xs arbitrary: ys)
  case Nil
  then show ?case by simp
next
  case (Cons x xs)
  then show ?case by (cases ys) auto
qed

lemma append_less_right [simp]:
  fixes xs :: "'a::linorder list"
  shows "xs @ us < xs @ vs \<longleftrightarrow> us < vs"
  by (induction xs) simp_all

lemma fixed_digits_less:
  "a < b \<Longrightarrow> b < 10 ^ w \<Longrightarrow> fixed_digits w a < fixed_digits w b"
proof (induction w arbitrary: a b)
  case 0
  then show ?case by simp
next
  case (Suc w)
  have b10: "b div 10 < 10 ^ w" using Suc.prems by (simp add: less_mult_imp_div_less)
  show ?case
  proof (cases "a div 10 < b div 10")
    case True
    from Suc.IH [OF True b10] show ?thesis by (simp add: append_less_left)
  next
    case False
    have "a div 10 \<le> b div 10" using Suc.prems(1) by (simp add: div_le_mono)
    with False have eq: "a div 10 = b div 10" by simp
    have "a mod 10 < b mod 10"
      using Suc.prems(1) eq mult_div_mod_eq [of 10 a] mult_div_mod_eq [of 10 b] by linarith
    then have "digit_char (a mod 10) < digit_char (b mod 10)" by (rule digit_char_less) simp
    with eq show ?thesis by simp
  qed
qed

lemma appendInt_fixed:
  assumes "0 \<le> x" "x < 10 ^ w" "0 < w"
  shows "appendInt x w = fixed_digits w (nat x)"
proof -
  have "nat x < 10 ^ w" using assms by (simp add: nat_less_iff)
  from digits_of_nat_fixed [OF assms(3) this] assms(1) show ?thesis
    by (simp add: appendInt_def Let_def)
qed

lemma appendInt_less:
  assumes "0 \<le> a" "a < b" "b < 10 ^ w" "0 < w"
  shows "appendInt a w < appendInt b w"
proof -
  have "nat a < nat b" "nat b < 10 ^ w" using assms by (simp_all add: nat_less_iff)
  then have "fixed_digits w (nat a) < fixed_digits w (nat b)" by (rule fixed_digits_less)
  with assms show ?thesis by (simp add: appendInt_fixed)
qed

lemma length_appendInt:
  assumes "0 \<le> x" "x < 10 ^ w" "0 < w"
  shows "length (appendInt x w) = w"
  using assms by (simp add: appendInt_fixed)

subsection \<open>The layout of a time\<close>


lemma layout_less:
  assumes lex: "y1 < y2 \<or> (y1 = y2 \<and> (m1 < m2 \<or> (m1 = m2 \<and> (d1 < d2 \<or> (d1 = d2 \<and>
                 (h1 < h2 \<or> (h1 = h2 \<and> (mi1 < mi2 \<or> (mi1 = mi2 \<and> s1 < s2)))))))))"
    and y: "0 \<le> y1" "y2 \<le> 9999"
    and m: "0 \<le> m1" "m2 < 100"
    and d: "0 \<le> d1" "d2 < 100"
    and h: "0 \<le> h1" "h2 < 100"
    and mi: "0 \<le> mi1" "mi2 < 100"
    and s: "0 \<le> s1" "s2 < 100"
  shows "layout y1 m1 d1 h1 mi1 s1 < layout y2 m2 d2 h2 mi2 s2"
proof -
  have len: "0 \<le> a \<Longrightarrow> a < b \<Longrightarrow> b < 100 \<Longrightarrow> length (appendInt a 2) = length (appendInt b 2)" for a b
    by (simp add: length_appendInt)
  have less2: "0 \<le> a \<Longrightarrow> a < b \<Longrightarrow> b < 100 \<Longrightarrow> appendInt a 2 @ us < appendInt b 2 @ vs" for a b us vs
    by (rule append_less_left) (simp_all add: appendInt_less length_appendInt)
  have less4: "0 \<le> a \<Longrightarrow> a < b \<Longrightarrow> b \<le> 9999 \<Longrightarrow> appendInt a 4 @ us < appendInt b 4 @ vs" for a b us vs
    by (rule append_less_left) (simp_all add: appendInt_less length_appendInt)
  consider (y) "y1 < y2"
    | (m) "y1 = y2" "m1 < m2"
    | (d) "y1 = y2" "m1 = m2" "d1 < d2"
    | (h) "y1 = y2" "m1 = m2" "d1 = d2" "h1 < h2"
    | (mi) "y1 = y2" "m1 = m2" "d1 = d2" "h1 = h2" "mi1 < mi2"
    | (s) "y1 = y2" "m1 = m2" "d1 = d2" "h1 = h2" "mi1 = mi2" "s1 < s2"
    using lex by blast
  then show ?thesis
  proof cases
    case y
    with assms(2,3) show ?thesis unfolding layout_def by (intro less4)
  next
    case m
    with assms(4,5) show ?thesis by (simp add: layout_def less2)
  next
    case d
    with assms(6,7) show ?thesis by (simp add: layout_def less2)
  next
    case h
    with assms(8,9) show ?thesis by (simp add: layout_def less2)
  next
    case mi
    with assms(10,11) show ?thesis by (simp add: layout_def less2)
  next
    case s
    with assms(12,13) have "appendInt s1 2 < appendInt s2 2" by (simp add: appendInt_less)
    with s show ?thesis by (simp add: layout_def)
  qed
qed

lemma length_layout:
  assumes "0 \<le> y" "y \<le> 9999" "0 \<le> m" "m < 100" "0 \<le> d" "d < 100" "0 \<le> h" "h < 100"
    "0 \<le> mi" "mi < 100" "0 \<le> s" "s < 100"
  shows "length (layout y m d h mi s) = 19"
  using assms by (simp add: layout_def length_appendInt)

lemma clock_fields:
  fixes x :: int
  assumes "0 \<le> x" "x < 86400"
  shows "0 \<le> x div 3600" "x div 3600 < 24" "0 \<le> x mod 3600 div 60" "x mod 3600 div 60 < 60"
    "0 \<le> x mod 60" "x mod 60 < 60"
    "x = 3600 * (x div 3600) + 60 * (x mod 3600 div 60) + x mod 60"
proof -
  have a: "x = 3600 * (x div 3600) + x mod 3600" by simp
  have b: "x mod 3600 = 60 * (x mod 3600 div 60) + x mod 3600 mod 60" by simp
  have c: "x mod 3600 mod 60 = x mod 60" by (simp add: mod_mod_cancel)
  have r: "0 \<le> x mod 3600" "x mod 3600 < 3600" by simp_all
  show "0 \<le> x div 3600" using assms by (simp add: pos_imp_zdiv_nonneg_iff)
  show "x div 3600 < 24" using assms a r by linarith
  show "0 \<le> x mod 3600 div 60" using r by (simp add: pos_imp_zdiv_nonneg_iff)
  show "x mod 3600 div 60 < 60"
    using r b pos_mod_sign [of 60 "x mod 3600"] by linarith
  show "0 \<le> x mod 60" "x mod 60 < 60" by simp_all
  show "x = 3600 * (x div 3600) + 60 * (x mod 3600 div 60) + x mod 60"
    using a b c by linarith
qed

lemma clock_mono:
  fixes x1 x2 :: int
  assumes "0 \<le> x1" "x1 < x2" "x2 < 86400"
  shows "x1 div 3600 < x2 div 3600 \<or> (x1 div 3600 = x2 div 3600 \<and>
          (x1 mod 3600 div 60 < x2 mod 3600 div 60 \<or> (x1 mod 3600 div 60 = x2 mod 3600 div 60 \<and>
             x1 mod 60 < x2 mod 60)))"
proof -
  define h1 where "h1 = x1 div 3600"
  define h2 where "h2 = x2 div 3600"
  define m1 where "m1 = x1 mod 3600 div 60"
  define m2 where "m2 = x2 mod 3600 div 60"
  define s1 where "s1 = x1 mod 60"
  define s2 where "s2 = x2 mod 60"
  have "0 \<le> x1" "x1 < 86400" "0 \<le> x2" "x2 < 86400" using assms by simp_all
  note f1 = clock_fields [OF \<open>0 \<le> x1\<close> \<open>x1 < 86400\<close>, folded h1_def m1_def s1_def]
  note f2 = clock_fields [OF \<open>0 \<le> x2\<close> \<open>x2 < 86400\<close>, folded h2_def m2_def s2_def]
  have "3600 * h1 + 60 * m1 + s1 < 3600 * h2 + 60 * m2 + s2"
    using f1(7) f2(7) assms(2) by linarith
  with f1(3-6) f2(3-6)
  have "h1 < h2 \<or> (h1 = h2 \<and> (m1 < m2 \<or> (m1 = m2 \<and> s1 < s2)))" by linarith
  then show ?thesis unfolding h1_def h2_def m1_def m2_def s1_def s2_def .
qed

lemma clock_lex:
  fixes h1 h2 m1 m2 s1 s2 :: int
  assumes "3600 * h1 + 60 * m1 + s1 < 3600 * h2 + 60 * m2 + s2"
    and "0 \<le> m1" "m1 < 60" "0 \<le> s1" "s1 < 60" "0 \<le> m2" "m2 < 60" "0 \<le> s2" "s2 < 60"
  shows "h1 < h2 \<or> (h1 = h2 \<and> (m1 < m2 \<or> (m1 = m2 \<and> s1 < s2)))"
  using assms by linarith

lemma time_fields:
  obtains y m dd h mi s where
    "time_Date t = (y, m, dd)" "1 \<le> m" "m \<le> 12" "1 \<le> dd" "dd \<le> 31"
    "dateToDays y m dd = local_sec t div 86400 + unixEpochDays"
    "time_Clock t = (h, mi, s)" "0 \<le> h" "h < 24" "0 \<le> mi" "mi < 60" "0 \<le> s" "s < 60"
    "local_sec t mod 86400 = 3600 * h + 60 * mi + s"
    "time_Format t = layout y m dd h mi s"
proof -
  obtain y m dd where c: "civil_of_days (local_sec t div 86400 + unixEpochDays) = (y, m, dd)"
      "1 \<le> m" "m \<le> 12" "1 \<le> dd" "dd \<le> 31"
      "dateToDays y m dd = local_sec t div 86400 + unixEpochDays"
    using civil_of_days_props [of "local_sec t div 86400 + unixEpochDays"] by blast
  define x where "x = local_sec t mod 86400"
  define h where "h = x div 3600"
  define mi where "mi = x mod 3600 div 60"
  define s where "s = x mod 60"
  have x: "0 \<le> x" "x < 86400" unfolding x_def by simp_all
  note k = clock_fields [OF x, folded h_def mi_def s_def]
  have d: "time_Date t = (y, m, dd)" using c(1) by (simp add: time_Date_def)
  have cl: "time_Clock t = (h, mi, s)"
    unfolding time_Clock_def Let_def h_def mi_def s_def x_def by (rule refl)
  have fm: "time_Format t = layout y m dd h mi s"
    unfolding time_Format_def d cl Let_def prod.case by (rule refl)
  show ?thesis
    by (rule that [OF d c(2-6) cl k(1-6) k(7) [unfolded x_def] fm])
qed

lemma time_Format_less:
  assumes lt: "local_sec t1 < local_sec t2"
    and yr: "0 \<le> fst (time_Date t1)" "fst (time_Date t2) \<le> 9999"
  shows "time_Format t1 < time_Format t2"
proof -
  obtain y1 m1 dd1 h1 mi1 s1 where f1:
    "time_Date t1 = (y1, m1, dd1)" "1 \<le> m1" "m1 \<le> 12" "1 \<le> dd1" "dd1 \<le> 31"
    "dateToDays y1 m1 dd1 = local_sec t1 div 86400 + unixEpochDays"
    "time_Clock t1 = (h1, mi1, s1)" "0 \<le> h1" "h1 < 24" "0 \<le> mi1" "mi1 < 60" "0 \<le> s1" "s1 < 60"
    "local_sec t1 mod 86400 = 3600 * h1 + 60 * mi1 + s1"
    "time_Format t1 = layout y1 m1 dd1 h1 mi1 s1"
    by (rule time_fields)
  obtain y2 m2 dd2 h2 mi2 s2 where f2:
    "time_Date t2 = (y2, m2, dd2)" "1 \<le> m2" "m2 \<le> 12" "1 \<le> dd2" "dd2 \<le> 31"
    "dateToDays y2 m2 dd2 = local_sec t2 div 86400 + unixEpochDays"
    "time_Clock t2 = (h2, mi2, s2)" "0 \<le> h2" "h2 < 24" "0 \<le> mi2" "mi2 < 60" "0 \<le> s2" "s2 < 60"
    "local_sec t2 mod 86400 = 3600 * h2 + 60 * mi2 + s2"
    "time_Format t2 = layout y2 m2 dd2 h2 mi2 s2"
    by (rule time_fields)
  define q1 where "q1 = local_sec t1 div 86400"
  define q2 where "q2 = local_sec t2 div 86400"
  define r1 where "r1 = local_sec t1 mod 86400"
  define r2 where "r2 = local_sec t2 mod 86400"
  have y1: "0 \<le> y1" and y2: "y2 \<le> 9999" using yr f1(1) f2(1) by simp_all
  have days: "q1 \<le> q2" unfolding q1_def q2_def using lt by (intro zdiv_mono1) simp_all
  have s1: "86400 * q1 + r1 = local_sec t1" and s2: "86400 * q2 + r2 = local_sec t2"
    unfolding q1_def q2_def r1_def r2_def by simp_all
  have "y1 < y2 \<or> (y1 = y2 \<and> (m1 < m2 \<or> (m1 = m2 \<and> (dd1 < dd2 \<or> (dd1 = dd2 \<and>
          (h1 < h2 \<or> (h1 = h2 \<and> (mi1 < mi2 \<or> (mi1 = mi2 \<and> s1 < s2)))))))))"
  proof (cases "q1 = q2")
    case True
    with s1 s2 lt have "r1 < r2" by linarith
    then have "3600 * h1 + 60 * mi1 + s1 < 3600 * h2 + 60 * mi2 + s2"
      using f1(14) f2(14) by (simp add: r1_def r2_def)
    then have "h1 < h2 \<or> (h1 = h2 \<and> (mi1 < mi2 \<or> (mi1 = mi2 \<and> s1 < s2)))"
      using f1(10-13) f2(10-13) by (rule clock_lex)
    moreover have "time_Date t1 = time_Date t2"
      using True by (simp add: time_Date_def q1_def q2_def)
    then have "y1 = y2 \<and> m1 = m2 \<and> dd1 = dd2" using f1(1) f2(1) by simp
    ultimately show ?thesis by blast
  next
    case False
    with days have "q1 + unixEpochDays < q2 + unixEpochDays" by simp
    moreover have "civil_of_days (q1 + unixEpochDays) = (y1, m1, dd1)"
        "civil_of_days (q2 + unixEpochDays) = (y2, m2, dd2)"
      using f1(1) f2(1) by (simp_all add: time_Date_def q1_def q2_def)
    ultimately have "y1 < y2 \<or> (y1 = y2 \<and> (m1 < m2 \<or> (m1 = m2 \<and> dd1 < dd2)))"
      by (rule civil_of_days_mono)
    then show ?thesis by blast
  qed
  moreover have "0 \<le> m1" "m2 < 100" "0 \<le> dd1" "dd2 < 100" "h2 < 100" "mi2 < 100" "s2 < 100"
    using f1(2,4) f2(3,5,9,11,13) by simp_all
  ultimately have "layout y1 m1 dd1 h1 mi1 s1 < layout y2 m2 dd2 h2 mi2 s2"
    using y1 y2 f1(8,10,12) by (intro layout_less)
  then show ?thesis unfolding f1(15) f2(15) .
qed

lemma length_time_Format:
  assumes "0 \<le> fst (time_Date t)" "fst (time_Date t) \<le> 9999"
  shows "length (time_Format t) = 19"
proof -
  obtain y m dd h mi s where f:
    "time_Date t = (y, m, dd)" "1 \<le> m" "m \<le> 12" "1 \<le> dd" "dd \<le> 31"
    "dateToDays y m dd = local_sec t div 86400 + unixEpochDays"
    "time_Clock t = (h, mi, s)" "0 \<le> h" "h < 24" "0 \<le> mi" "mi < 60" "0 \<le> s" "s < 60"
    "local_sec t mod 86400 = 3600 * h + 60 * mi + s"
    "time_Format t = layout y m dd h mi s"
    by (rule time_fields)
  have "0 \<le> y" "y \<le> 9999" using assms f(1) by simp_all
  moreover have "0 \<le> m" "m < 100" "0 \<le> dd" "dd < 100" "h < 100" "mi < 100" "s < 100"
    using f(2-5,9,11,13) by simp_all
  ultimately have "length (layout y m dd h mi s) = 19"
    using f(8,10,12) by (intro length_layout)
  then show ?thesis unfolding f(15) .
qed

lemma filename_less:
  assumes "time_Format t1 < time_Format t2" "length (time_Format t1) = length (time_Format t2)"
  shows "filename cfg t1 < filename cfg t2"
proof -
  have "time_Format t1 @ extension cfg < time_Format t2 @ extension cfg"
    using assms by (rule append_less_left)
  then show ?thesis by (simp add: filename_def)
qed

subsection \<open>The 64-bit arithmetic of \<^verbatim>\<open>time.Date\<close>\<close>

text \<open>
  Where nothing wraps around, \<^verbatim>\<open>time.Date\<close> gives the instant of the calendar: for
  fields in their ranges and a year the package can count from, the result is the instant
  at the wall-clock reading, whenever that reading can be resolved in 64 bits. Only the
  seconds of the day argument matter, modulo \<open>2 ^ 64\<close>.
\<close>

lemma wrap64_id: "in_int64 x \<Longrightarrow> wrap64 x = x"
  by (simp add: wrap64_def in_int64_def)

lemma u64_id: "0 \<le> x \<Longrightarrow> x < 2 ^ 64 \<Longrightarrow> u64 x = x"
  by (simp add: u64_def)

lemma u64_add_cong: "u64 a = u64 b \<Longrightarrow> u64 (c + a) = u64 (c + b)"
  unfolding u64_def by (rule mod_add_cong) simp_all

lemma u64_mult_cong: "u64 a = u64 b \<Longrightarrow> u64 (a * k) = u64 (b * k)"
  unfolding u64_def by (rule mod_mult_cong) simp_all

lemma u64_u64_add: "u64 (u64 a + b) = u64 (a + b)"
  by (simp add: u64_def mod_simps)

lemma u64_u64_mult: "u64 (u64 a * b) = u64 (a * b)"
  by (simp add: u64_def mod_simps)

lemma u64_wrap64_mult: "u64 (wrap64 a * b) = u64 (a * b)"
proof -
  have "(wrap64 a * b) mod 2 ^ 64 = ((wrap64 a mod 2 ^ 64) * b) mod 2 ^ 64"
    by (simp add: mod_simps)
  also have "wrap64 a mod 2 ^ 64 = a mod 2 ^ 64"
    by (simp add: wrap64_def mod_simps)
  finally show ?thesis by (simp add: u64_def mod_simps)
qed

lemma wrap64_u64_add: "wrap64 (u64 a + b) = wrap64 (a + b)"
proof -
  have "(a mod 2 ^ 64 + (b + 2 ^ 63)) mod 2 ^ 64 = (a + (b + 2 ^ 63)) mod (2 ^ 64 :: int)"
    by (rule mod_add_left_eq)
  then show ?thesis by (simp add: wrap64_def u64_def add.assoc)
qed

lemma go_neg_seconds: "u64 (go_neg r * 86400) = u64 (- r * 86400)"
  by (simp add: go_neg_def u64_def)

lemma norm_id: "0 \<le> lo \<Longrightarrow> lo < base \<Longrightarrow> norm hi lo base = (hi, lo)"
  by (simp add: norm_def)

lemma daysSinceEpoch_calendar:
  assumes "absoluteZeroYear \<le> year" "year - absoluteZeroYear < 2 ^ 64"
  shows "daysSinceEpoch year = u64 (days_before_year year + 106751990353932)"
proof -
  define y where "y = year - absoluteZeroYear"
  have y: "u64 (year - absoluteZeroYear) = y" "0 \<le> y"
    using assms by (simp_all add: y_def u64_id)
  define a where "a = y div 400"
  define r where "r = y mod 400"
  have y1: "y - 400 * a = r" unfolding a_def r_def by (simp add: minus_mult_div_eq_mod)
  have r: "0 \<le> r" "r < 400" by (simp_all add: r_def)
  define b where "b = r div 100"
  define r2 where "r2 = r mod 100"
  have y2: "r - 100 * b = r2" unfolding b_def r2_def by (simp add: minus_mult_div_eq_mod)
  have "r div 100 \<le> 399 div 100" using r by (intro zdiv_mono1) simp_all
  then have b: "0 \<le> b" "b \<le> 3" using r by (simp_all add: b_def pos_imp_zdiv_nonneg_iff)
  have r2: "0 \<le> r2" "r2 < 100" by (simp_all add: r2_def)
  define c where "c = r2 div 4"
  define e where "e = r2 mod 4"
  have y3: "r2 - 4 * c = e" unfolding c_def e_def by (simp add: minus_mult_div_eq_mod)
  have "r2 div 4 \<le> 99 div 4" using r2 by (intro zdiv_mono1) simp_all
  then have c: "0 \<le> c" "c \<le> 24" using r2 by (simp_all add: c_def pos_imp_zdiv_nonneg_iff)
  have e: "0 \<le> e" "e \<le> 3" by (simp_all add: e_def)
  have "year = y + absoluteZeroYear" by (simp add: y_def)
  also have "y = 400 * a + 100 * b + 4 * c + e" using y1 y2 y3 by simp
  finally have year: "year = 400 * (a - 730692556) + 100 * b + 4 * c + e + 1"
    by (simp add: absoluteZeroYear_def)
  have "days_before_year (400 * (a - 730692556) + 100 * b + 4 * c + e + 1)
      = 146097 * (a - 730692556) + 36524 * b + 1461 * c + 365 * e"
    using b c e by (rule days_before_year_cycles)
  then have dby: "days_before_year year + 106751990353932
      = 146097 * a + 36524 * b + 1461 * c + 365 * e"
    unfolding year [symmetric] by simp
  have "daysSinceEpoch year = u64 (u64 (u64 (u64 (146097 * a) + 36524 * b) + 1461 * c) + 365 * e)"
    unfolding daysSinceEpoch_def y Let_def a_def [symmetric] y1 b_def [symmetric] y2
      c_def [symmetric] y3 ..
  also have "\<dots> = u64 (146097 * a + 36524 * b + 1461 * c + 365 * e)"
    by (simp add: u64_def mod_simps)
  finally show ?thesis unfolding dby .
qed

lemma Date_wall_clock:
  assumes f: "1 \<le> m" "m \<le> 12" "0 \<le> h" "h < 24" "0 \<le> mi" "mi < 60" "0 \<le> s" "s < 60"
      "0 \<le> ns" "ns < 1000000000"
    and y: "absoluteZeroYear \<le> y" "y - absoluteZeroYear < 2 ^ 64"
    and d: "u64 (d * 86400) = u64 (d0 * 86400)"
    and w: "wall = (dateToDays y m d0 - unixEpochDays) * 86400 + h * 3600 + mi * 60 + s"
    and r: "resolvable l wall"
  shows "Date y m d h mi s ns l = at_wall_clock l wall ns"
proof -
  have m1: "wrap64 (m - 1) = m - 1" using f by (intro wrap64_id) (simp add: in_int64_def)
  have n: "norm y (m - 1) 12 = (y, m - 1)" "norm s ns 1000000000 = (s, ns)"
    "norm mi s 60 = (mi, s)" "norm h mi 60 = (h, mi)" "norm d h 24 = (d, h)"
    using f by (simp_all add: norm_id)
  define ms where "ms = monthStart (isLeap y) m"
  define days where "days = days_before_year y + 106751990353932"
  define clock where "clock = h * 3600 + mi * 60 + s"
  define D1 where "D1 =
     (if isLeap y \<and> 3 \<le> m - 1 + 1
      then u64 (u64 (daysSinceEpoch y + daysBefore (nat (m - 1 + 1 - 1))) + 1)
      else u64 (daysSinceEpoch y + daysBefore (nat (m - 1 + 1 - 1))))"
  have D1: "D1 = u64 (days + ms)"
    unfolding D1_def daysSinceEpoch_calendar [OF y] days_def [symmetric] ms_def monthStart_def
    by (simp add: u64_def mod_simps add.assoc)
  define E where "E = (days + ms - 1) * 86400 + clock"
  have "u64 (u64 (D1 + (d - 1))) = u64 (days + ms + (d - 1))"
    unfolding D1 by (simp add: u64_def mod_simps)
  then have s1: "u64 (u64 (D1 + (d - 1)) * 86400) = u64 ((days + ms + (d - 1)) * 86400)"
    by (rule u64_mult_cong)
  have "u64 (u64 (D1 + (d - 1)) * 86400 + clock) = u64 (clock + u64 (D1 + (d - 1)) * 86400)"
    by (simp add: add.commute)
  also have "\<dots> = u64 (clock + (days + ms + (d - 1)) * 86400)"
    using s1 by (rule u64_add_cong)
  also have "clock + (days + ms + (d - 1)) * 86400 = E + d * 86400"
    by (simp add: E_def algebra_simps)
  also have "u64 (E + d * 86400) = u64 (E + d0 * 86400)"
    using d by (rule u64_add_cong)
  finally have a: "u64 (u64 (D1 + (d - 1)) * 86400 + clock) = u64 (E + d0 * 86400)" .
  have "E + d0 * 86400 + (absoluteToInternal + internalToUnix) = wall"
    unfolding w E_def days_def ms_def clock_def
    by (simp add: dateToDays_def unixEpochDays_def absoluteToInternal_def internalToUnix_def
        algebra_simps)
  then have "wrap64 (u64 (E + d0 * 86400) + (absoluteToInternal + internalToUnix)) = wrap64 wall"
    unfolding wrap64_u64_add by simp
  also have "\<dots> = wall" using r by (intro wrap64_id) (simp add: resolvable_def)
  finally have unix:
    "wrap64 (u64 (u64 (D1 + (d - 1)) * 86400 + clock) + (absoluteToInternal + internalToUnix)) = wall"
    unfolding a .
  have u1: "wrap64 (wall - zone_offset (l wall)) = wall - zone_offset (l wall)"
    using r by (intro wrap64_id) (simp add: resolvable_def)
  define inner where "inner =
     (if wall - zone_offset (l wall) < zone_start (l wall)
         \<or> zone_end (l wall) \<le> wall - zone_offset (l wall)
      then zone_offset (l (wall - zone_offset (l wall))) else zone_offset (l wall))"
  have awc: "at_wall_clock l wall k =
      \<lparr>unix_sec = wall - (if zone_offset (l wall) \<noteq> 0 then inner else 0), nsec = k, loc = l\<rparr>"
    for k by (simp add: at_wall_clock_def inner_def Let_def)
  have "in_int64 (wall - (if zone_offset (l wall) \<noteq> 0 then inner else 0))"
    using r by (simp add: resolvable_def awc)
  then have u2: "zone_offset (l wall) \<noteq> 0 \<Longrightarrow> wrap64 (wall - inner) = wall - inner"
    by (intro wrap64_id) simp
  have "Date y m d h mi s ns l =
     (let z = l wall;
          unix1 =
            (if zone_offset z \<noteq> 0 then
               (let utc = wrap64 (wall - zone_offset z);
                    offset = (if utc < zone_start z \<or> zone_end z \<le> utc
                              then zone_offset (l utc) else zone_offset z)
                in wrap64 (wall - offset))
             else wall)
      in \<lparr>unix_sec = unix1, nsec = ns, loc = l\<rparr>)"
    unfolding Date_def m1 n prod.case Let_def D1_def [symmetric] clock_def [symmetric] unix ..
  also have "\<dots> = at_wall_clock l wall ns"
    unfolding Let_def u1 inner_def [symmetric] awc using u2 by simp
  finally show ?thesis .
qed

lemma readable_year:
  assumes "readable t" "time_Date t = (y, m, dd)"
  shows "absoluteZeroYear \<le> y" "y < 1000000000000"
proof -
  define d where "d = local_sec t div 86400 + unixEpochDays"
  obtain y' yday where c: "civil_of_days d = (y', month_day (isLeap y') yday)"
    "d = days_before_year y' + yday" "0 \<le> yday" "yday < (if isLeap y' then 366 else 365)"
    using civil_of_days_year [of d] by blast
  have "civil_of_days d = (y, m, dd)" using assms(2) by (simp add: time_Date_def d_def)
  with c(1) have yy: "y' = y" by simp
  have "(- 9223372028715321600) div 86400 \<le> local_sec t div 86400"
    using assms(1)
    by (intro zdiv_mono1) (simp_all add: readable_def absoluteToInternal_def internalToUnix_def)
  then have lo: "- 106751990353932 \<le> d" by (simp add: d_def unixEpochDays_def)
  have "local_sec t div 86400 \<le> (2 ^ 63) div 86400"
    using assms(1) by (intro zdiv_mono1) (simp_all add: readable_def)
  then have hi: "d < 365242499999634" by (simp add: d_def unixEpochDays_def)
  show "absoluteZeroYear \<le> y"
  proof (rule ccontr)
    assume "\<not> absoluteZeroYear \<le> y"
    then have "y < absoluteZeroYear" by simp
    then have "days_before_year y + (if isLeap y then 366 else 365) \<le> days_before_year absoluteZeroYear"
      by (rule days_before_year_mono)
    moreover have "days_before_year absoluteZeroYear = - 106751990353932"
      by (simp add: days_before_year_def absoluteZeroYear_def)
    ultimately show False using c(2,4) lo unfolding yy by (simp split: if_splits)
  qed
  show "y < 1000000000000"
  proof (rule ccontr)
    assume n: "\<not> y < 1000000000000"
    have v: "days_before_year 1000000000000 = 365242499999634"
      by (simp add: days_before_year_def)
    have "days_before_year 1000000000000 \<le> days_before_year y"
    proof (cases "y = 1000000000000")
      case True then show ?thesis by simp
    next
      case False
      with n have "1000000000000 < y" by simp
      then have "days_before_year 1000000000000 + (if isLeap 1000000000000 then 366 else 365)
          \<le> days_before_year y"
        by (rule days_before_year_mono)
      then show ?thesis by (simp split: if_splits)
    qed
    then show False using c(2,3) hi v unfolding yy by simp
  qed
qed

lemma AddDate_days:
  assumes rd: "readable t"
    and k: "u64 (days * 86400) = u64 (k * 86400)"
    and r: "resolvable (loc t) (local_sec t + k * 86400)"
  shows "AddDate t 0 0 days = at_wall_clock (loc t) (local_sec t + k * 86400) (nsec t)"
proof -
  obtain y m dd h mi s where f:
    "time_Date t = (y, m, dd)" "1 \<le> m" "m \<le> 12" "1 \<le> dd" "dd \<le> 31"
    "dateToDays y m dd = local_sec t div 86400 + unixEpochDays"
    "time_Clock t = (h, mi, s)" "0 \<le> h" "h < 24" "0 \<le> mi" "mi < 60" "0 \<le> s" "s < 60"
    "local_sec t mod 86400 = 3600 * h + 60 * mi + s"
    "time_Format t = layout y m dd h mi s"
    by (rule time_fields)
  have yr: "absoluteZeroYear \<le> y" "y < 1000000000000"
    using rd f(1) by (rule readable_year)+
  then have y64: "y - absoluteZeroYear < 2 ^ 64" by (simp add: absoluteZeroYear_def)
  have "wrap64 y = y"
    using yr by (intro wrap64_id) (simp add: in_int64_def absoluteZeroYear_def)
  then have wy: "wrap64 (y + 0) = y" by simp
  have "wrap64 m = m" using f(2,3) by (intro wrap64_id) (simp add: in_int64_def)
  then have wm: "wrap64 (m + 0) = m" by simp
  have ns: "0 \<le> nsec t" "nsec t < 1000000000" using rd by (simp_all add: readable_def)
  define q where "q = local_sec t div 86400"
  have "86400 * q + local_sec t mod 86400 = local_sec t" unfolding q_def by simp
  then have split: "86400 * q + (3600 * h + 60 * mi + s) = local_sec t"
    unfolding f(14) .
  have "u64 (wrap64 (dd + days) * 86400) = u64 (dd * 86400 + days * 86400)"
    unfolding u64_wrap64_mult by (simp add: algebra_simps)
  also have "\<dots> = u64 (dd * 86400 + k * 86400)" using k by (rule u64_add_cong)
  finally have d: "u64 (wrap64 (dd + days) * 86400) = u64 ((dd + k) * 86400)"
    by (simp add: algebra_simps)
  have "dateToDays y m (dd + k) = q + unixEpochDays + k"
    using f(6) by (simp add: dateToDays_def q_def)
  then have w: "local_sec t + k * 86400
      = (dateToDays y m (dd + k) - unixEpochDays) * 86400 + h * 3600 + mi * 60 + s"
    using split by (simp add: algebra_simps)
  have "AddDate t 0 0 days = Date y m (wrap64 (dd + days)) h mi s (nsec t) (loc t)"
    unfolding AddDate_def f(1) f(7) Let_def prod.case wy wm ..
  also have "\<dots> = at_wall_clock (loc t) (local_sec t + k * 86400) (nsec t)"
    using f(2,3,8-13) ns yr(1) y64 d w r by (rule Date_wall_clock)
  finally show ?thesis .
qed

text \<open>
  So \<^verbatim>\<open>now.AddDate(0, 0, -r)\<close> is the current time minus \<open>r\<close> calendar days whenever
  that instant is in the range of the package.
\<close>

lemma AddDate_minus_calendar_days:
  assumes "readable t" "resolvable (loc t) (local_sec t - r * 86400)"
  shows "AddDate t 0 0 (go_neg r) = minus_calendar_days t r"
proof -
  have "AddDate t 0 0 (go_neg r) = at_wall_clock (loc t) (local_sec t + (- r) * 86400) (nsec t)"
    using assms by (intro AddDate_days go_neg_seconds) simp_all
  then show ?thesis by (simp add: minus_calendar_days_def)
qed

text \<open>In a location with one offset, the instant moves by whole days.\<close>

lemma at_wall_clock_FixedZone:
  "at_wall_clock (FixedZone off) wall ns = \<lparr>unix_sec = wall - off, nsec = ns, loc = FixedZone off\<rparr>"
  by (simp add: at_wall_clock_def FixedZone_def Let_def in_int64_def)

lemma minus_calendar_days_FixedZone:
  assumes "loc t = FixedZone off"
  shows "minus_calendar_days t r = t\<lparr>unix_sec := unix_sec t - r * 86400\<rparr>"
proof -
  have "local_sec t = unix_sec t + off" using assms by (simp add: local_sec_def FixedZone_def)
  then have "minus_calendar_days t r =
      \<lparr>unix_sec = unix_sec t - r * 86400, nsec = nsec t, loc = FixedZone off\<rparr>"
    unfolding minus_calendar_days_def assms at_wall_clock_FixedZone by simp
  also have "\<dots> = t\<lparr>unix_sec := unix_sec t - r * 86400\<rparr>"
    using assms by simp
  finally show ?thesis .
qed

lemma resolvable_FixedZone:
  "resolvable (FixedZone off) wall = (in_int64 wall \<and> in_int64 (wall - off))"
  by (auto simp add: resolvable_def at_wall_clock_FixedZone) (simp_all add: FixedZone_def)

subsection \<open>The command\<close>

lemma Args_exec_Command: "Args (exec_Command lookPath name arg) = name # arg"
  by (cases "lookPath name") (simp add: exec_Command_def Let_def split: option.split)

lemma Env_exec_Command: "Env (exec_Command lookPath name arg) = []"
  by (cases "lookPath name") (simp add: exec_Command_def Let_def split: option.split)

lemma filepath_Base_pg_dump: "filepath_Base ''pg_dump'' = ''pg_dump''"
  by (simp add: filepath_Base_def)

lemma Err_exec_Command_pg_dump:
  "Err (exec_Command lookPath ''pg_dump'' arg) = snd (lookPath ''pg_dump'')"
  by (cases "lookPath ''pg_dump''") (simp add: exec_Command_def filepath_Base_pg_dump Let_def split: option.split)

lemma Path_exec_Command_pg_dump:
  "Path (exec_Command lookPath ''pg_dump'' arg) =
     (if fst (lookPath ''pg_dump'') \<noteq> [] then fst (lookPath ''pg_dump'') else ''pg_dump'')"
  by (cases "lookPath ''pg_dump''") (simp add: exec_Command_def filepath_Base_pg_dump Let_def split: option.split)

lemma buildPgDumpCommand_command:
  "buildPgDumpCommand w cfg p =
     exec_Command (exec_LookPath w) ''pg_dump''
       [''-h'', Host (Database cfg), ''-p'', sprint_int (Port (Database cfg)),
        ''-U'', User (Database cfg), ''-d'', Name (Database cfg),
        ''--verbose'', ''--no-password'', ''--format='' @ format_flag cfg, ''--file'', p]"
  by (simp add: buildPgDumpCommand_def format_flag_def Let_def)

lemma Args_buildPgDumpCommand:
  "Args (buildPgDumpCommand w cfg p) =
     [''pg_dump'', ''-h'', Host (Database cfg), ''-p'', sprint_int (Port (Database cfg)),
      ''-U'', User (Database cfg), ''-d'', Name (Database cfg),
      ''--verbose'', ''--no-password'', ''--format='' @ format_flag cfg, ''--file'', p]"
  by (simp add: buildPgDumpCommand_command Args_exec_Command)

lemma Err_dump_cmd: "Err (dump_cmd w cfg now) = snd (exec_LookPath w ''pg_dump'')"
  by (simp add: dump_cmd_def buildPgDumpCommand_command Err_exec_Command_pg_dump)

lemma Path_dump_cmd:
  "Path (dump_cmd w cfg now) =
     (if fst (exec_LookPath w ''pg_dump'') \<noteq> [] then fst (exec_LookPath w ''pg_dump'') else ''pg_dump'')"
  by (simp add: dump_cmd_def buildPgDumpCommand_command Path_exec_Command_pg_dump)

lemma Args_dump_cmd:
  "Args (dump_cmd w cfg now) =
     [''pg_dump'', ''-h'', Host (Database cfg), ''-p'', sprint_int (Port (Database cfg)),
      ''-U'', User (Database cfg), ''-d'', Name (Database cfg),
      ''--verbose'', ''--no-password'', ''--format='' @ format_flag cfg,
      ''--file'', outputPath cfg now]"
  by (simp add: dump_cmd_def Args_buildPgDumpCommand)

lemma Env_dump_cmd:
  "Env (dump_cmd w cfg now) = os_Environ w @ [''PGPASSWORD='' @ Password (Database cfg)]"
  by (simp add: dump_cmd_def)

subsection \<open>Values at the concrete inputs\<close>

lemma digits_of_nat_numeral:
  "digits_of_nat (numeral k) =
     (if numeral k < (10::nat) then [digit_char (numeral k)]
      else digits_of_nat (numeral k div 10) @ [digit_char (numeral k mod 10)])"
  by (rule digits_of_nat.simps)

lemma digits_of_nat_small: "digits_of_nat 0 = ''0''" "digits_of_nat (Suc 0) = ''1''"
  by (simp_all add: digits_of_nat.simps digit_char_def)

lemma replicate_numeral: "replicate (numeral k) x = x # replicate (pred_numeral k) x"
  by (simp add: numeral_eq_Suc)

lemmas digits_eval = digits_of_nat_numeral digits_of_nat_small digit_char_def replicate_numeral

lemma sprint_int_5432: "sprint_int 5432 = ''5432''"
  by (simp add: sprint_int_def digits_eval)

lemma appendInt_values:
  "appendInt 2024 4 = ''2024''" "appendInt 11 2 = ''11''" "appendInt 3 2 = ''03''"
  "appendInt 12 2 = ''12''" "appendInt 0 2 = ''00''" "appendInt 1 2 = ''01''"
  "appendInt 30 2 = ''30''" "appendInt 10 2 = ''10''"
  by (simp_all add: appendInt_def digits_eval Let_def)

lemma month_day_307: "month_day True 307 = (11, 3)"
  unfolding month_day_def month_estimate_def Let_def by (simp add: daysBefore_def)

lemma civil_of_days_739192: "civil_of_days 739192 = (2024, 11, 3)"
  unfolding civil_of_days_def Let_def by (simp add: isLeap_def month_day_307)

lemma local_sec_noon: "local_sec noon = 1730635200"
  by (simp add: local_sec_def noon_def UTC_def FixedZone_def)

lemma time_Date_noon: "time_Date noon = (2024, 11, 3)"
  unfolding time_Date_def local_sec_noon unixEpochDays_def by (simp add: civil_of_days_739192)

lemma time_Format_noon: "time_Format noon = ''2024-11-03_12-00-00''"
  unfolding time_Format_def time_Date_noon time_Clock_def local_sec_noon Let_def
  by (simp add: layout_def appendInt_values)

lemma local_sec_before_fall_back: "local_sec before_fall_back = 1730597400"
  by (simp add: local_sec_def before_fall_back_def New_York_def)

lemma local_sec_after_fall_back: "local_sec after_fall_back = 1730596200"
  by (simp add: local_sec_def after_fall_back_def New_York_def)

lemma time_Format_before_fall_back: "time_Format before_fall_back = ''2024-11-03_01-30-00''"
  unfolding time_Format_def time_Date_def time_Clock_def local_sec_before_fall_back Let_def
    unixEpochDays_def
  by (simp add: civil_of_days_739192 layout_def appendInt_values)

lemma time_Format_after_fall_back: "time_Format after_fall_back = ''2024-11-03_01-10-00''"
  unfolding time_Format_def time_Date_def time_Clock_def local_sec_after_fall_back Let_def
    unixEpochDays_def
  by (simp add: civil_of_days_739192 layout_def appendInt_values)

lemma filename_noon: "filename example_config noon = ''shop_2024-11-03_12-00-00.dump''"
  by (simp add: filename_def time_Format_noon extension_def example_config_def)

lemma filepath_Join_values:
  "filepath_Join ''/var/backups'' ''shop_2024-11-03_12-00-00.dump''
     = ''/var/backups/shop_2024-11-03_12-00-00.dump''"
  "filepath_Join ''/var/backups'' ''shop_2024-10-24_12-00-00.dump''
     = ''/var/backups/shop_2024-10-24_12-00-00.dump''"
  "filepath_Join ''/var/backups'' ''shop_2024-10-26_12-00-00.dump''
     = ''/var/backups/shop_2024-10-26_12-00-00.dump''"
  "filepath_Join ''/var/backups'' ''shop_2024-10-27_12-00-00.dump''
     = ''/var/backups/shop_2024-10-27_12-00-00.dump''"
  "filepath_Join ''/var/backups'' ''shop_2024-10-28_12-00-00.dump''
     = ''/var/backups/shop_2024-10-28_12-00-00.dump''"
  by (simp_all add: filepath_Join_def filepath_Clean_def)

lemma outputPath_noon:
  "outputPath example_config noon = ''/var/backups/shop_2024-11-03_12-00-00.dump''"
  by (simp add: outputPath_def filename_noon filepath_Join_values) (simp add: example_config_def filepath_Join_values)

subsection \<open>Naming and the dump command\<close>

text \<open>
  C4. The extension of the artifact and the format flag of the command follow the format
  of the configuration: \<^verbatim>\<open>plain\<close> gives \<^verbatim>\<open>.sql\<close> and \<^verbatim>\<open>--format=plain\<close>, \<^verbatim>\<open>tar\<close> gives
  \<^verbatim>\<open>.tar\<close> and \<^verbatim>\<open>--format=tar\<close>, \<^verbatim>\<open>directory\<close> gives no extension and
  \<^verbatim>\<open>--format=directory\<close>, and every other value, \<^verbatim>\<open>custom\<close> among them, gives
  \<^verbatim>\<open>.dump\<close> and \<^verbatim>\<open>--format=custom\<close>. The flag is the twelfth of the fourteen arguments,
  and the file name ends with the extension.
\<close>

theorem extension_and_format_flag:
  "(Format (Backup cfg) = ''plain'' \<longrightarrow>
      extension cfg = ''.sql'' \<and> Args (buildPgDumpCommand w cfg p) ! 11 = ''--format=plain'')
   \<and> (Format (Backup cfg) = ''tar'' \<longrightarrow>
      extension cfg = ''.tar'' \<and> Args (buildPgDumpCommand w cfg p) ! 11 = ''--format=tar'')
   \<and> (Format (Backup cfg) = ''directory'' \<longrightarrow>
      extension cfg = [] \<and> Args (buildPgDumpCommand w cfg p) ! 11 = ''--format=directory'')
   \<and> (Format (Backup cfg) \<notin> {''plain'', ''tar'', ''directory''} \<longrightarrow>
      extension cfg = ''.dump'' \<and> Args (buildPgDumpCommand w cfg p) ! 11 = ''--format=custom'')
   \<and> Args (buildPgDumpCommand w cfg p) =
       [''pg_dump'', ''-h'', Host (Database cfg), ''-p'', sprint_int (Port (Database cfg)),
        ''-U'', User (Database cfg), ''-d'', Name (Database cfg), ''--verbose'', ''--no-password'',
        Args (buildPgDumpCommand w cfg p) ! 11, ''--file'', p]
   \<and> filename cfg now = Name (Database cfg) @ ''_'' @ time_Format now @ extension cfg"
  by (simp add: Args_buildPgDumpCommand format_flag_def extension_def filename_def)

theorem extension_and_format_flag_witness:
  "extension example_config = ''.dump''
   \<and> Args (buildPgDumpCommand (example_world dump_success None) example_config ''/var/backups/x'') ! 11
       = ''--format=custom''
   \<and> extension (example_config\<lparr>Backup := (Backup example_config)\<lparr>Format := ''zip''\<rparr>\<rparr>) = ''.dump''
   \<and> Args (buildPgDumpCommand (example_world dump_success None)
         (example_config\<lparr>Backup := (Backup example_config)\<lparr>Format := ''zip''\<rparr>\<rparr>) ''/var/backups/x'') ! 11
       = ''--format=custom''
   \<and> extension (example_config\<lparr>Backup := (Backup example_config)\<lparr>Format := ''plain''\<rparr>\<rparr>) = ''.sql''"
  using extension_and_format_flag [of example_config "example_world dump_success None" "''/var/backups/x''"]
    extension_and_format_flag [of "example_config\<lparr>Backup := (Backup example_config)\<lparr>Format := ''zip''\<rparr>\<rparr>"
      "example_world dump_success None" "''/var/backups/x''"]
    extension_and_format_flag [of "example_config\<lparr>Backup := (Backup example_config)\<lparr>Format := ''plain''\<rparr>\<rparr>"
      "example_world dump_success None" "''/var/backups/x''"]
  by (simp add: example_config_def)

text \<open>
  C3. The arguments of the dump command, its path and its text in the log are the same
  whatever the password is: they are computed without it. The password reaches the child
  process in its environment, which is the environment of the program followed by the one
  entry \<^verbatim>\<open>PGPASSWORD=<password>\<close>; and this command is the one that
  \<^verbatim>\<open>performBackup\<close> runs.
\<close>

theorem password_only_in_environment:
  "Args (dump_cmd w (cfg\<lparr>Database := (Database cfg)\<lparr>Password := pw\<rparr>\<rparr>) now) = Args (dump_cmd w cfg now)
   \<and> Path (dump_cmd w (cfg\<lparr>Database := (Database cfg)\<lparr>Password := pw\<rparr>\<rparr>) now) = Path (dump_cmd w cfg now)
   \<and> cmd_String (dump_cmd w (cfg\<lparr>Database := (Database cfg)\<lparr>Password := pw\<rparr>\<rparr>) now)
       = cmd_String (dump_cmd w cfg now)
   \<and> Env (dump_cmd w cfg now) = os_Environ w @ [''PGPASSWORD='' @ Password (Database cfg)]
   \<and> (\<exists>evs err. fst (performBackup w cfg tr) = tr @ evs
         \<and> dumps evs = [(dump_cmd w cfg (backup_now w tr), err)])"
proof -
  let ?cfg' = "cfg\<lparr>Database := (Database cfg)\<lparr>Password := pw\<rparr>\<rparr>"
  have o: "outputPath ?cfg' now = outputPath cfg now"
    by (simp add: outputPath_def filename_def extension_def)
  have a: "Args (dump_cmd w ?cfg' now) = Args (dump_cmd w cfg now)"
    by (simp add: Args_dump_cmd o format_flag_def)
  have p: "Path (dump_cmd w ?cfg' now) = Path (dump_cmd w cfg now)"
    by (simp add: Path_dump_cmd)
  have e: "Err (dump_cmd w ?cfg' now) = Err (dump_cmd w cfg now)"
    by (simp add: Err_dump_cmd)
  have s: "cmd_String (dump_cmd w ?cfg' now) = cmd_String (dump_cmd w cfg now)"
    unfolding cmd_String_def a p e by (rule refl)
  have "\<exists>evs err. fst (performBackup w cfg tr) = tr @ evs
         \<and> dumps evs = [(dump_cmd w cfg (backup_now w tr), err)]"
    using performBackup_events [of w cfg tr] by blast
  with a p s show ?thesis by (simp add: Env_dump_cmd)
qed

theorem password_only_in_environment_witness:
  "''s3cret'' \<notin> set (Args (dump_cmd (example_world dump_success None) example_config noon))
   \<and> Args (dump_cmd (example_world dump_success None) example_config noon) =
       [''pg_dump'', ''-h'', ''localhost'', ''-p'', ''5432'', ''-U'', ''postgres'', ''-d'', ''shop'',
        ''--verbose'', ''--no-password'', ''--format=custom'',
        ''--file'', ''/var/backups/shop_2024-11-03_12-00-00.dump'']
   \<and> Env (dump_cmd (example_world dump_success None) example_config noon)
       = [''PATH=/usr/bin'', ''PGPASSWORD=s3cret'']
   \<and> Args (dump_cmd (example_world dump_success None)
         (example_config\<lparr>Database := (Database example_config)\<lparr>Password := ''hunter2''\<rparr>\<rparr>) noon)
       = Args (dump_cmd (example_world dump_success None) example_config noon)"
proof -
  have "Args (dump_cmd (example_world dump_success None) example_config noon) =
       [''pg_dump'', ''-h'', ''localhost'', ''-p'', ''5432'', ''-U'', ''postgres'', ''-d'', ''shop'',
        ''--verbose'', ''--no-password'', ''--format=custom'',
        ''--file'', ''/var/backups/shop_2024-11-03_12-00-00.dump'']"
    unfolding Args_dump_cmd outputPath_noon
    by (simp add: example_config_def sprint_int_5432 format_flag_def)
  moreover have "Env (dump_cmd (example_world dump_success None) example_config noon)
       = [''PATH=/usr/bin'', ''PGPASSWORD=s3cret'']"
    using password_only_in_environment [where w = "example_world dump_success None"
        and cfg = example_config and now = noon]
    by (simp add: example_world_def example_config_def)
  moreover have "Args (dump_cmd (example_world dump_success None)
         (example_config\<lparr>Database := (Database example_config)\<lparr>Password := ''hunter2''\<rparr>\<rparr>) noon)
       = Args (dump_cmd (example_world dump_success None) example_config noon)"
    using password_only_in_environment [where w = "example_world dump_success None"
        and cfg = example_config and pw = "''hunter2''" and now = noon]
    by simp
  ultimately show ?thesis by simp
qed

subsection \<open>Defaults\<close>

text \<open>
  C10. A configuration file that sets \<^verbatim>\<open>retention_days\<close> to 0 loads as the same
  configuration as the file without the key, with a retention of 7 days, and likewise a port
  of 0 loads as 5432: no loaded configuration has a retention of 0 days or the port 0.
\<close>

theorem zero_retention_and_port_are_defaulted:
  "loadConfig readFile (\<lambda>data. Inr (doc\<lparr>yaml_retention_days := Some 0\<rparr>)) path
     = loadConfig readFile (\<lambda>data. Inr (doc\<lparr>yaml_retention_days := None\<rparr>)) path
   \<and> Retention (Backup (set_defaults (Unmarshal (doc\<lparr>yaml_retention_days := Some 0\<rparr>)))) = 7
   \<and> loadConfig readFile (\<lambda>data. Inr (doc\<lparr>yaml_port := Some 0\<rparr>)) path
     = loadConfig readFile (\<lambda>data. Inr (doc\<lparr>yaml_port := None\<rparr>)) path
   \<and> Port (Database (set_defaults (Unmarshal (doc\<lparr>yaml_port := Some 0\<rparr>)))) = 5432
   \<and> (\<forall>c. loadConfig readFile parse path = Inr c \<longrightarrow>
          Retention (Backup c) \<noteq> 0 \<and> Port (Database c) \<noteq> 0)"
proof -
  have r: "Unmarshal (doc\<lparr>yaml_retention_days := Some 0\<rparr>) = Unmarshal (doc\<lparr>yaml_retention_days := None\<rparr>)"
    by (simp add: Unmarshal_def int_or_zero_def)
  have p: "Unmarshal (doc\<lparr>yaml_port := Some 0\<rparr>) = Unmarshal (doc\<lparr>yaml_port := None\<rparr>)"
    by (simp add: Unmarshal_def int_or_zero_def)
  have d: "Retention (Backup (set_defaults c)) \<noteq> 0 \<and> Port (Database (set_defaults c)) \<noteq> 0" for c
    by (simp add: set_defaults_def Let_def)
  have r7: "Retention (Backup (set_defaults (Unmarshal (doc\<lparr>yaml_retention_days := Some 0\<rparr>)))) = 7"
    by (simp add: set_defaults_def Unmarshal_def int_or_zero_def Let_def)
  have p5: "Port (Database (set_defaults (Unmarshal (doc\<lparr>yaml_port := Some 0\<rparr>)))) = 5432"
    by (simp add: set_defaults_def Unmarshal_def int_or_zero_def Let_def)
  have l: "\<forall>c. loadConfig readFile parse path = Inr c \<longrightarrow>
          Retention (Backup c) \<noteq> 0 \<and> Port (Database c) \<noteq> 0"
    using d by (auto simp: loadConfig_def split: sum.splits)
  have a: "loadConfig readFile (\<lambda>data. Inr (doc\<lparr>yaml_retention_days := Some 0\<rparr>)) path
     = loadConfig readFile (\<lambda>data. Inr (doc\<lparr>yaml_retention_days := None\<rparr>)) path"
    by (cases "readFile path") (simp_all add: loadConfig_def r)
  have b: "loadConfig readFile (\<lambda>data. Inr (doc\<lparr>yaml_port := Some 0\<rparr>)) path
     = loadConfig readFile (\<lambda>data. Inr (doc\<lparr>yaml_port := None\<rparr>)) path"
    by (cases "readFile path") (simp_all add: loadConfig_def p)
  from a r7 b p5 l show ?thesis by (intro conjI)
qed

theorem zero_retention_and_port_are_defaulted_witness:
  "loadConfig (\<lambda>path. Inr []) (\<lambda>data. Inr example_doc) ''backup.yaml''
     = Inr \<lparr>Database =
              \<lparr>Host = ''localhost'', Port = 5432, Name = ''shop'', User = ''postgres'',
               Password = ''s3cret''\<rparr>,
            Backup =
              \<lparr>OutputDir = ''/var/backups'', Frequency = 0, Retention = 7,
               Format = ''custom''\<rparr>,
            Logging = \<lparr>Level = [], FilePath = []\<rparr>\<rparr>
   \<and> loadConfig (\<lambda>path. Inr []) (\<lambda>data. Inr (example_doc\<lparr>yaml_retention_days := Some 0\<rparr>)) ''backup.yaml''
     = loadConfig (\<lambda>path. Inr []) (\<lambda>data. Inr (example_doc\<lparr>yaml_retention_days := None\<rparr>)) ''backup.yaml''"
proof -
  have "loadConfig (\<lambda>path. Inr []) (\<lambda>data. Inr example_doc) ''backup.yaml''
     = Inr \<lparr>Database =
              \<lparr>Host = ''localhost'', Port = 5432, Name = ''shop'', User = ''postgres'',
               Password = ''s3cret''\<rparr>,
            Backup =
              \<lparr>OutputDir = ''/var/backups'', Frequency = 0, Retention = 7,
               Format = ''custom''\<rparr>,
            Logging = \<lparr>Level = [], FilePath = []\<rparr>\<rparr>"
    by (simp add: loadConfig_def set_defaults_def Unmarshal_def example_doc_def int_or_zero_def
        string_or_zero_def Let_def)
  then show ?thesis
    using zero_retention_and_port_are_defaulted [where readFile = "\<lambda>path. Inr []"
        and doc = example_doc and path = "''backup.yaml''"]
    by simp
qed

subsection \<open>The example environment\<close>

lemma readable_noon: "readable noon"
  by (simp add: readable_def local_sec_noon absoluteToInternal_def internalToUnix_def)
    (simp add: noon_def)

lemma resolvable_noon: "resolvable (loc noon) (local_sec noon - 7 * 86400)"
  by (simp add: noon_def UTC_def resolvable_FixedZone)
    (simp add: local_sec_def FixedZone_def in_int64_def)

lemma cutoff_noon: "cutoff example_config noon = days_before_noon 7"
proof -
  have "AddDate noon 0 0 (go_neg 7) = minus_calendar_days noon 7"
    using readable_noon resolvable_noon by (rule AddDate_minus_calendar_days)
  also have "\<dots> = noon\<lparr>unix_sec := unix_sec noon - 7 * 86400\<rparr>"
    by (rule minus_calendar_days_FixedZone [where off = 0]) (simp add: noon_def UTC_def)
  finally show ?thesis
    by (simp add: cutoff_def example_config_def noon_def days_before_noon_def)
qed

text \<open>The example environment: the clock, the dump command and its outcome.\<close>

lemma backup_now_example: "backup_now (example_world d r) tr = noon"
  by (simp add: backup_now_def example_world_def)

lemma dump_outcome_example: "dump_outcome (example_world d r) cfg tr = d"
  by (simp add: dump_outcome_def run_CombinedOutput_def Err_dump_cmd example_world_def)

lemma cmd_String_example:
  "cmd_String (dump_cmd (example_world d r) example_config noon) =
     ''/usr/bin/pg_dump -h localhost -p 5432 -U postgres -d shop --verbose --no-password --format=custom --file /var/backups/shop_2024-11-03_12-00-00.dump''"
  unfolding cmd_String_def Err_dump_cmd Path_dump_cmd Args_dump_cmd outputPath_noon
  by (simp add: example_world_def example_config_def sprint_int_5432 format_flag_def)

lemma performBackup_example_failure:
  "performBackup (example_world dump_failure r) example_config tr =
     (tr @ [Logged ''Starting backup...'', Now noon,
            Logged ''Running: /usr/bin/pg_dump -h localhost -p 5432 -U postgres -d shop --verbose --no-password --format=custom --file /var/backups/shop_2024-11-03_12-00-00.dump'',
            CombinedOutput (dump_cmd (example_world dump_failure r) example_config noon)
              ''pg_dump: error: connection to server failed'' (Some ''exit status 1'')],
      Some ''pg_dump failed: exit status 1, output: pg_dump: error: connection to server failed'')"
proof -
  let ?w = "example_world dump_failure r"
  have o: "run_CombinedOutput ?w (before_dump ?w example_config tr)
             (dump_cmd ?w example_config (backup_now ?w tr))
           = (''pg_dump: error: connection to server failed'', Some ''exit status 1'')"
    using dump_outcome_example [of dump_failure r example_config tr]
    by (simp add: dump_outcome_def dump_failure_def)
  show ?thesis
    unfolding performBackup_dump_failed [OF o]
    unfolding before_dump_def backup_now_example cmd_String_example by simp
qed

lemma sweep_example_listing:
  "sweep (example_world d r) example_config (days_before_noon 7) example_listing tr =
     tr @ [Remove ''/var/backups/shop_2024-10-24_12-00-00.dump'' r,
           Logged (removal_report (''/var/backups/shop_2024-10-24_12-00-00.dump'', r)),
           Remove ''/var/backups/shop_2024-10-26_12-00-00.dump'' r,
           Logged (removal_report (''/var/backups/shop_2024-10-26_12-00-00.dump'', r))]"
proof -
  have dir: "OutputDir (Backup example_config) = ''/var/backups''"
    by (simp add: example_config_def)
  have rm: "os_Remove (example_world d x) t p = x" for t p x
    by (simp add: example_world_def)
  have b: "Before (days_before_noon 10) (days_before_noon 7)"
    "Before (days_before_noon 8) (days_before_noon 7)"
    "\<not> Before (days_before_noon 7) (days_before_noon 7)"
    "\<not> Before (days_before_noon 6) (days_before_noon 7)"
    by (simp_all add: Before_def days_before_noon_def)
  show ?thesis
    unfolding example_listing_def
    by (cases r) (simp_all add: dir rm b filepath_Join_values Let_def)
qed

subsection \<open>One cycle\<close>

text \<open>
  C1. In a cycle the dump command runs once, and the sweep lists the output directory
  exactly when the dump succeeded. After a failing dump \<^verbatim>\<open>performBackup\<close> returns the
  error \<^verbatim>\<open>pg_dump failed: ...\<close> with the error and the combined output that the run of
  the command gave, and has neither listed the directory nor removed a file.
\<close>

theorem sweep_follows_successful_dump_only:
  "\<exists>evs. fst (performBackup w cfg tr) = tr @ evs
     \<and> command_runs evs = [(dump_cmd w cfg (backup_now w tr), dump_outcome w cfg tr)]
     \<and> readdirs evs =
         (if snd (dump_outcome w cfg tr) = None then [OutputDir (Backup cfg)] else [])
     \<and> snd (performBackup w cfg tr) =
         (case snd (dump_outcome w cfg tr) of None \<Rightarrow> None
          | Some e \<Rightarrow>
              Some (''pg_dump failed: '' @ e @ '', output: '' @ fst (dump_outcome w cfg tr)))
     \<and> (snd (dump_outcome w cfg tr) = None \<or> removes evs = [])"
proof (cases "dump_outcome w cfg tr")
  case (Pair out err)
  then have o: "run_CombinedOutput w (before_dump w cfg tr) (dump_cmd w cfg (backup_now w tr))
      = (out, err)"
    by (simp add: dump_outcome_def)
  define c where "c = dump_cmd w cfg (backup_now w tr)"
  define pre where "pre = [Logged ''Starting backup...'', Now (backup_now w tr),
     Logged (''Running: '' @ cmd_String c)]"
  have bd: "before_dump w cfg tr = tr @ pre"
    by (simp add: before_dump_def pre_def c_def)
  have pre: "command_runs pre = []" "readdirs pre = []" "removes pre = []"
    by (simp_all add: pre_def)
  show ?thesis
  proof (cases err)
    case (Some e)
    have "performBackup w cfg tr =
        (tr @ (pre @ [CombinedOutput c out (Some e)]),
         Some (''pg_dump failed: '' @ e @ '', output: '' @ out))"
      using performBackup_dump_failed [OF o [unfolded Some]] by (simp add: bd c_def)
    then show ?thesis
      unfolding Pair Some c_def [symmetric]
      by (intro exI [of _ "pre @ [CombinedOutput c out (Some e)]"]) (simp add: pre)
  next
    case None
    obtain evs where evs: "performBackup w cfg tr =
        (before_dump w cfg tr
          @ [CombinedOutput c out None,
             Logged (''Backup completed successfully: '' @ outputPath cfg (backup_now w tr))]
          @ evs, None)"
      "readdirs evs = [OutputDir (Backup cfg)]" "dumps evs = []"
      using performBackup_dump_ok [OF o [unfolded None]] unfolding c_def by blast
    have "command_runs evs = []" using evs(3) by (simp add: dumps_command_runs)
    moreover have "performBackup w cfg tr =
        (tr @ (pre @ [CombinedOutput c out None,
             Logged (''Backup completed successfully: '' @ outputPath cfg (backup_now w tr))]
          @ evs), None)"
      using evs(1) by (simp add: bd)
    ultimately show ?thesis
      unfolding Pair None c_def [symmetric]
      by (intro exI [of _ "pre @ [CombinedOutput c out None,
             Logged (''Backup completed successfully: '' @ outputPath cfg (backup_now w tr))]
          @ evs"]) (simp add: pre evs(2))
  qed
qed

theorem sweep_follows_successful_dump_only_witness:
  "command_runs (fst (performBackup (example_world dump_success None) example_config []))
     = [(dump_cmd (example_world dump_success None) example_config noon, [], None)]
   \<and> readdirs (fst (performBackup (example_world dump_success None) example_config []))
       = [''/var/backups'']
   \<and> snd (performBackup (example_world dump_success None) example_config []) = None
   \<and> command_runs (fst (performBackup (example_world dump_failure None) example_config []))
       = [(dump_cmd (example_world dump_failure None) example_config noon,
           ''pg_dump: error: connection to server failed'', Some ''exit status 1'')]
   \<and> readdirs (fst (performBackup (example_world dump_failure None) example_config [])) = []
   \<and> snd (performBackup (example_world dump_failure None) example_config [])
       = Some ''pg_dump failed: exit status 1, output: pg_dump: error: connection to server failed''"
proof -
  have dir: "OutputDir (Backup example_config) = ''/var/backups''"
    by (simp add: example_config_def)
  have s: "command_runs (fst (performBackup (example_world dump_success None) example_config []))
     = [(dump_cmd (example_world dump_success None) example_config noon, [], None)]
   \<and> readdirs (fst (performBackup (example_world dump_success None) example_config []))
       = [''/var/backups'']
   \<and> snd (performBackup (example_world dump_success None) example_config []) = None"
    using sweep_follows_successful_dump_only [of "example_world dump_success None" example_config "[]"]
    unfolding dump_outcome_example backup_now_example dir
    by (auto simp add: dump_success_def)
  have f: "command_runs (fst (performBackup (example_world dump_failure None) example_config []))
       = [(dump_cmd (example_world dump_failure None) example_config noon,
           ''pg_dump: error: connection to server failed'', Some ''exit status 1'')]
   \<and> readdirs (fst (performBackup (example_world dump_failure None) example_config [])) = []
   \<and> snd (performBackup (example_world dump_failure None) example_config [])
       = Some ''pg_dump failed: exit status 1, output: pg_dump: error: connection to server failed''"
    using sweep_follows_successful_dump_only [of "example_world dump_failure None" example_config "[]"]
    unfolding dump_outcome_example backup_now_example dir
    by (auto simp add: dump_failure_def)
  from s f show ?thesis by blast
qed

text \<open>
  C1 as stated, that the sweep runs after a failing dump too, fails: when \<^verbatim>\<open>pg_dump\<close>
  exits with status 1, the cycle ends after the run of the command, with two lines in the
  log, no listing of the directory and no removal.
\<close>

theorem failed_dump_skips_sweep:
  "snd (performBackup (example_world dump_failure None) example_config [])
     = Some ''pg_dump failed: exit status 1, output: pg_dump: error: connection to server failed''
   \<and> readdirs (fst (performBackup (example_world dump_failure None) example_config [])) = []
   \<and> removes (fst (performBackup (example_world dump_failure None) example_config [])) = []
   \<and> logs (fst (performBackup (example_world dump_failure None) example_config []))
       = [''Starting backup...'',
          ''Running: /usr/bin/pg_dump -h localhost -p 5432 -U postgres -d shop --verbose --no-password --format=custom --file /var/backups/shop_2024-11-03_12-00-00.dump'']"
  unfolding performBackup_example_failure by simp

subsection \<open>The sweep\<close>

text \<open>
  C5. The sweep passes over every entry that is a directory, whatever its age: it does
  what it would do on the listing without the directories, every call of \<^verbatim>\<open>os.Remove\<close>
  is for the path of an entry that is not a directory, and on a listing of directories
  alone it does nothing.
\<close>

theorem directories_are_never_removed:
  "sweep w cfg lim entries tr = sweep w cfg lim (filter (\<lambda>e. \<not> IsDir e) entries) tr
   \<and> (\<exists>evs. sweep w cfg lim entries tr = tr @ evs
         \<and> (\<forall>p \<in> set (map fst (removes evs)).
               \<exists>e \<in> set entries. \<not> IsDir e
                  \<and> p = filepath_Join (OutputDir (Backup cfg)) (entry_Name e)))
   \<and> ((\<forall>e \<in> set entries. IsDir e) \<longrightarrow> sweep w cfg lim entries tr = tr)"
proof -
  have a: "sweep w cfg lim entries tr = sweep w cfg lim (filter (\<lambda>e. \<not> IsDir e) entries) tr"
    by (rule sweep_skips_directories)
  obtain evs where evs: "sweep w cfg lim entries tr = tr @ evs"
     "map fst (removes evs) =
         map (\<lambda>e. filepath_Join (OutputDir (Backup cfg)) (entry_Name e))
           (filter (\<lambda>e. \<not> IsDir e \<and> (case Info e of Inl err \<Rightarrow> False
                                            | Inr info \<Rightarrow> Before (ModTime info) lim)) entries)"
    using sweep_events [of w cfg lim entries tr] by blast
  have b: "\<forall>p \<in> set (map fst (removes evs)).
               \<exists>e \<in> set entries. \<not> IsDir e
                  \<and> p = filepath_Join (OutputDir (Backup cfg)) (entry_Name e)"
    unfolding evs(2) by auto
  have c: "(\<forall>e \<in> set entries. IsDir e) \<longrightarrow> sweep w cfg lim entries tr = tr"
  proof
    assume "\<forall>e \<in> set entries. IsDir e"
    then have "filter (\<lambda>e. \<not> IsDir e) entries = []" by (simp add: filter_empty_conv)
    with a show "sweep w cfg lim entries tr = tr" by simp
  qed
  from a evs(1) b c show ?thesis by blast
qed

theorem directories_are_never_removed_witness:
  "sweep (example_world dump_success None) example_config (days_before_noon 7) example_listing []
     = sweep (example_world dump_success None) example_config (days_before_noon 7) (tl example_listing) []
   \<and> IsDir (hd example_listing)
   \<and> Before (ModTime (projr (Info (hd example_listing)))) (days_before_noon 7)
   \<and> map fst (removes (sweep (example_world dump_success None) example_config (days_before_noon 7)
         example_listing []))
       = [''/var/backups/shop_2024-10-24_12-00-00.dump'', ''/var/backups/shop_2024-10-26_12-00-00.dump'']"
proof -
  have "filter (\<lambda>e. \<not> IsDir e) example_listing = tl example_listing"
    by (simp add: example_listing_def)
  then have "sweep (example_world dump_success None) example_config (days_before_noon 7) example_listing []
     = sweep (example_world dump_success None) example_config (days_before_noon 7) (tl example_listing) []"
    using directories_are_never_removed [of "example_world dump_success None" example_config
        "days_before_noon 7" example_listing "[]"] by simp
  moreover have "IsDir (hd example_listing)"
    "Before (ModTime (projr (Info (hd example_listing)))) (days_before_noon 7)"
    by (simp_all add: example_listing_def Before_def days_before_noon_def)
  moreover have "map fst (removes (sweep (example_world dump_success None) example_config
         (days_before_noon 7) example_listing []))
       = [''/var/backups/shop_2024-10-24_12-00-00.dump'', ''/var/backups/shop_2024-10-26_12-00-00.dump'']"
    by (simp add: sweep_example_listing)
  ultimately show ?thesis by (intro conjI)
qed

text \<open>
  C6. Whatever \<^verbatim>\<open>os.Remove\<close> answers, \<^verbatim>\<open>cleanupOldBackups\<close>, once it has listed the
  output directory, calls it for every entry of the listing that is not a directory and
  has a modification time (its \<^verbatim>\<open>Info\<close> could be read) before the cutoff, in the order of
  the listing, and writes one line to the log for each call: the failure with the path and
  the error, or the removal. It returns no error.
\<close>

theorem sweep_continues_after_failed_removal:
  "os_ReadDir w tr (OutputDir (Backup cfg)) = Inr entries \<longrightarrow>
     (\<exists>evs. cleanupOldBackups w cfg tr =
         (tr @ [ReadDir (OutputDir (Backup cfg)) (Inr entries),
                Now (time_Now w (tr @ [ReadDir (OutputDir (Backup cfg)) (Inr entries)]))] @ evs,
          None)
       \<and> map fst (removes evs) =
           map (\<lambda>e. filepath_Join (OutputDir (Backup cfg)) (entry_Name e))
             (filter (\<lambda>e. \<not> IsDir e \<and> (case Info e of Inl err \<Rightarrow> False
                | Inr info \<Rightarrow> Before (ModTime info)
                    (cutoff cfg (time_Now w (tr @ [ReadDir (OutputDir (Backup cfg)) (Inr entries)])))))
              entries)
       \<and> logs evs = map removal_report (removes evs))"
proof
  assume l: "os_ReadDir w tr (OutputDir (Backup cfg)) = Inr entries"
  define n where "n = time_Now w (tr @ [ReadDir (OutputDir (Backup cfg)) (Inr entries)])"
  define tr2 where "tr2 = tr @ [ReadDir (OutputDir (Backup cfg)) (Inr entries), Now n]"
  obtain evs where evs: "sweep w cfg (cutoff cfg n) entries tr2 = tr2 @ evs"
    "map fst (removes evs) =
       map (\<lambda>e. filepath_Join (OutputDir (Backup cfg)) (entry_Name e))
         (filter (\<lambda>e. \<not> IsDir e \<and> (case Info e of Inl err \<Rightarrow> False
                                          | Inr info \<Rightarrow> Before (ModTime info) (cutoff cfg n))) entries)"
    "logs evs = map removal_report (removes evs)"
    using sweep_events [of w cfg "cutoff cfg n" entries tr2] by blast
  have "cleanupOldBackups w cfg tr = (tr2 @ evs, None)"
    using cleanup_listing_ok [OF l] evs(1) by (simp add: n_def tr2_def)
  then have "cleanupOldBackups w cfg tr =
      (tr @ [ReadDir (OutputDir (Backup cfg)) (Inr entries), Now n] @ evs, None)"
    by (simp add: tr2_def)
  with evs(2,3) show "\<exists>evs. cleanupOldBackups w cfg tr =
         (tr @ [ReadDir (OutputDir (Backup cfg)) (Inr entries),
                Now (time_Now w (tr @ [ReadDir (OutputDir (Backup cfg)) (Inr entries)]))] @ evs,
          None)
       \<and> map fst (removes evs) =
           map (\<lambda>e. filepath_Join (OutputDir (Backup cfg)) (entry_Name e))
             (filter (\<lambda>e. \<not> IsDir e \<and> (case Info e of Inl err \<Rightarrow> False
                | Inr info \<Rightarrow> Before (ModTime info)
                    (cutoff cfg (time_Now w (tr @ [ReadDir (OutputDir (Backup cfg)) (Inr entries)])))))
              entries)
       \<and> logs evs = map removal_report (removes evs)"
    unfolding n_def by (intro exI [of _ evs] conjI)
qed

theorem sweep_continues_after_failed_removal_witness:
  "os_ReadDir (example_world dump_success (Some ''permission denied'')) []
       (OutputDir (Backup example_config)) = Inr example_listing
   \<and> snd (cleanupOldBackups (example_world dump_success (Some ''permission denied''))
           example_config []) = None
   \<and> removes (fst (cleanupOldBackups (example_world dump_success (Some ''permission denied''))
           example_config []))
       = [(''/var/backups/shop_2024-10-24_12-00-00.dump'', Some ''permission denied''),
          (''/var/backups/shop_2024-10-26_12-00-00.dump'', Some ''permission denied'')]
   \<and> logs (fst (cleanupOldBackups (example_world dump_success (Some ''permission denied''))
           example_config []))
       = [''Failed to remove old backup /var/backups/shop_2024-10-24_12-00-00.dump: permission denied'',
          ''Failed to remove old backup /var/backups/shop_2024-10-26_12-00-00.dump: permission denied'']"
proof -
  let ?w = "example_world dump_success (Some ''permission denied'')"
  have l: "os_ReadDir ?w [] (OutputDir (Backup example_config)) = Inr example_listing"
    by (simp add: example_world_def)
  have n: "time_Now ?w t = noon" for t
    by (simp add: example_world_def)
  obtain evs where evs: "cleanupOldBackups ?w example_config [] =
         ([] @ [ReadDir (OutputDir (Backup example_config)) (Inr example_listing),
                Now (time_Now ?w ([] @ [ReadDir (OutputDir (Backup example_config)) (Inr example_listing)]))]
            @ evs, None)"
      "logs evs = map removal_report (removes evs)"
    using sweep_continues_after_failed_removal [of ?w "[]" example_config example_listing] l
    by blast
  have c: "cleanupOldBackups ?w example_config [] =
     ([ReadDir ''/var/backups'' (Inr example_listing), Now noon,
       Remove ''/var/backups/shop_2024-10-24_12-00-00.dump'' (Some ''permission denied''),
       Logged (removal_report (''/var/backups/shop_2024-10-24_12-00-00.dump'', Some ''permission denied'')),
       Remove ''/var/backups/shop_2024-10-26_12-00-00.dump'' (Some ''permission denied''),
       Logged (removal_report (''/var/backups/shop_2024-10-26_12-00-00.dump'', Some ''permission denied''))],
      None)"
    unfolding cleanup_listing_ok [OF l] n cutoff_noon sweep_example_listing
    by (simp add: example_config_def)
  have r: "removes (fst (cleanupOldBackups ?w example_config []))
       = [(''/var/backups/shop_2024-10-24_12-00-00.dump'', Some ''permission denied''),
          (''/var/backups/shop_2024-10-26_12-00-00.dump'', Some ''permission denied'')]"
    unfolding c by simp
  have "removes evs = removes (fst (cleanupOldBackups ?w example_config []))"
    "logs evs = logs (fst (cleanupOldBackups ?w example_config []))"
    unfolding evs(1) by simp_all
  with evs(2) have "logs (fst (cleanupOldBackups ?w example_config []))
      = map removal_report (removes (fst (cleanupOldBackups ?w example_config [])))"
    by simp
  then have g: "logs (fst (cleanupOldBackups ?w example_config []))
       = [''Failed to remove old backup /var/backups/shop_2024-10-24_12-00-00.dump: permission denied'',
          ''Failed to remove old backup /var/backups/shop_2024-10-26_12-00-00.dump: permission denied'']"
    unfolding r by simp
  have "snd (cleanupOldBackups ?w example_config []) = None"
    unfolding evs(1) by simp
  with l r g show ?thesis by (intro conjI)
qed

subsection \<open>The cutoff\<close>

lemma month_day_values:
  "month_day True 306 = (11, 2)" "month_day True 313 = (11, 9)"
  "month_day False 364 = (12, 31)" "month_day True 0 = (1, 1)"
  unfolding month_day_def month_estimate_def Let_def by (simp_all add: daysBefore_def)

lemma civil_of_days_values:
  "civil_of_days 739191 = (2024, 11, 2)" "civil_of_days 739198 = (2024, 11, 9)"
  "civil_of_days 3652058 = (9999, 12, 31)" "civil_of_days 3652059 = (10000, 1, 1)"
  unfolding civil_of_days_def Let_def by (simp_all add: isLeap_def month_day_values)

lemma local_sec_week_after_fall_back: "local_sec week_after_fall_back = 1731153600"
  by (simp add: local_sec_def week_after_fall_back_def New_York_def)

lemma time_Date_week_after_fall_back: "time_Date week_after_fall_back = (2024, 11, 9)"
  unfolding time_Date_def local_sec_week_after_fall_back unixEpochDays_def
  by (simp add: civil_of_days_values)

text \<open>
  Across a change of the clocks the cutoff is not a multiple of 24 hours back: a week
  before noon of 2024-11-09 in New York is noon of 2024-11-02, 169 hours earlier.
\<close>

lemma cutoff_across_fall_back:
  "unix_sec (cutoff example_config week_after_fall_back)
     = unix_sec week_after_fall_back - 7 * 86400 - 3600"
proof -
  have l: "loc week_after_fall_back = New_York" by (simp add: week_after_fall_back_def)
  have rd: "readable week_after_fall_back"
    by (simp add: readable_def local_sec_week_after_fall_back absoluteToInternal_def
        internalToUnix_def) (simp add: week_after_fall_back_def)
  have awc: "at_wall_clock New_York 1730548800 k = \<lparr>unix_sec = 1730563200, nsec = k, loc = New_York\<rparr>"
    for k by (simp add: at_wall_clock_def New_York_def Let_def)
  have rs: "resolvable (loc week_after_fall_back) (local_sec week_after_fall_back - 7 * 86400)"
    unfolding l local_sec_week_after_fall_back resolvable_def
    by (simp add: awc) (simp add: New_York_def in_int64_def)
  have "AddDate week_after_fall_back 0 0 (go_neg 7) = minus_calendar_days week_after_fall_back 7"
    using rd rs by (rule AddDate_minus_calendar_days)
  also have "\<dots> = \<lparr>unix_sec = 1730563200, nsec = nsec week_after_fall_back, loc = New_York\<rparr>"
    unfolding minus_calendar_days_def l local_sec_week_after_fall_back by (simp add: awc)
  finally show ?thesis
    by (simp add: cutoff_def example_config_def week_after_fall_back_def)
qed




subsection \<open>The scheduler\<close>

text \<open>
  C8. \<^verbatim>\<open>Start\<close> first creates the output directory; when that fails it returns the error
  and has run no backup. Otherwise it runs one cycle at once, before the ticker exists. With
  a positive interval it then creates the ticker and runs one cycle after each tick, and
  after any number of ticks it is waiting for the next one, whichever cycles have failed:
  a cycle that fails adds its error to the log, and the next tick starts from that history.
  With an interval that is not positive there is no tick: the creation of the ticker
  panics, after the first cycle.
\<close>

theorem Start_schedule:
  "(os_MkdirAll w (tr @ [Logged ''Starting backup tool...'']) (OutputDir (Backup cfg)) = Some e \<longrightarrow>
      Start w cfg n tr =
        (tr @ [Logged ''Starting backup tool...'', MkdirAll (OutputDir (Backup cfg)) (Some e)],
         Returned (Some (''failed to create output directory: '' @ e))))
   \<and> (os_MkdirAll w (tr @ [Logged ''Starting backup tool...'']) (OutputDir (Backup cfg)) = None
        \<and> 0 < Frequency (Backup cfg) \<longrightarrow>
      snd (Start w cfg n tr) = Waiting
      \<and> (\<exists>evs. fst (Start w cfg n tr) = tr @ evs
            \<and> schedule evs =
                [Mkdir_step, Dump_step, Ticker_step] @ concat (replicate n [Tick_step, Dump_step]))
      \<and> fst (Start w cfg (Suc n) tr)
          = backup_logged w cfg ''Backup failed: '' (fst (Start w cfg n tr) @ [Tick]))
   \<and> (os_MkdirAll w (tr @ [Logged ''Starting backup tool...'']) (OutputDir (Backup cfg)) = None
        \<and> Frequency (Backup cfg) \<le> 0 \<longrightarrow>
      snd (Start w cfg n tr) = Panicked ''non-positive interval for NewTicker''
      \<and> (\<exists>evs. fst (Start w cfg n tr) = tr @ evs \<and> schedule evs = [Mkdir_step, Dump_step]))
   \<and> (snd (performBackup w cfg tr') = Some e \<longrightarrow>
        backup_logged w cfg prefix tr' = fst (performBackup w cfg tr') @ [Logged (prefix @ e)])
   \<and> (snd (performBackup w cfg tr') = None \<longrightarrow>
        backup_logged w cfg prefix tr' = fst (performBackup w cfg tr'))"
proof -
  have a: "os_MkdirAll w (tr @ [Logged ''Starting backup tool...'']) (OutputDir (Backup cfg)) = Some e \<longrightarrow>
      Start w cfg n tr =
        (tr @ [Logged ''Starting backup tool...'', MkdirAll (OutputDir (Backup cfg)) (Some e)],
         Returned (Some (''failed to create output directory: '' @ e)))"
    by (simp add: Start_mkdir_failed)
  have b: "os_MkdirAll w (tr @ [Logged ''Starting backup tool...'']) (OutputDir (Backup cfg)) = None
        \<and> 0 < Frequency (Backup cfg) \<longrightarrow>
      snd (Start w cfg n tr) = Waiting
      \<and> (\<exists>evs. fst (Start w cfg n tr) = tr @ evs
            \<and> schedule evs =
                [Mkdir_step, Dump_step, Ticker_step] @ concat (replicate n [Tick_step, Dump_step]))
      \<and> fst (Start w cfg (Suc n) tr)
          = backup_logged w cfg ''Backup failed: '' (fst (Start w cfg n tr) @ [Tick])"
  proof
    assume h: "os_MkdirAll w (tr @ [Logged ''Starting backup tool...'']) (OutputDir (Backup cfg)) = None
        \<and> 0 < Frequency (Backup cfg)"
    define tr4 where "tr4 = initial_backup w cfg tr @ [NewTicker (Frequency (Backup cfg))]"
    have s: "Start w cfg k tr = (ticks w cfg k tr4, Waiting)" for k
      using h by (simp add: Start_mkdir_ok tr4_def)
    obtain evs0 where evs0: "initial_backup w cfg tr = tr @ evs0"
        "schedule evs0 = [Mkdir_step, Dump_step]"
      using initial_backup_events [of w cfg tr] by blast
    obtain evs1 where evs1: "ticks w cfg n tr4 = tr4 @ evs1"
        "schedule evs1 = concat (replicate n [Tick_step, Dump_step])"
      using ticks_events [of w cfg n tr4] by blast
    have "fst (Start w cfg n tr) = tr @ (evs0 @ NewTicker (Frequency (Backup cfg)) # evs1)"
      unfolding s fst_conv evs1(1) by (simp add: tr4_def evs0(1))
    moreover have "schedule (evs0 @ NewTicker (Frequency (Backup cfg)) # evs1) =
        [Mkdir_step, Dump_step, Ticker_step] @ concat (replicate n [Tick_step, Dump_step])"
      by (simp add: evs0(2) evs1(2))
    ultimately have "\<exists>evs. fst (Start w cfg n tr) = tr @ evs
            \<and> schedule evs =
                [Mkdir_step, Dump_step, Ticker_step] @ concat (replicate n [Tick_step, Dump_step])"
      by blast
    moreover have "fst (Start w cfg (Suc n) tr)
          = backup_logged w cfg ''Backup failed: '' (fst (Start w cfg n tr) @ [Tick])"
      unfolding s fst_conv by (rule ticks_last)
    moreover have "snd (Start w cfg n tr) = Waiting" unfolding s by simp
    ultimately show "snd (Start w cfg n tr) = Waiting
      \<and> (\<exists>evs. fst (Start w cfg n tr) = tr @ evs
            \<and> schedule evs =
                [Mkdir_step, Dump_step, Ticker_step] @ concat (replicate n [Tick_step, Dump_step]))
      \<and> fst (Start w cfg (Suc n) tr)
          = backup_logged w cfg ''Backup failed: '' (fst (Start w cfg n tr) @ [Tick])"
      by (intro conjI)
  qed
  have c: "snd (performBackup w cfg tr') = Some e \<longrightarrow>
        backup_logged w cfg prefix tr' = fst (performBackup w cfg tr') @ [Logged (prefix @ e)]"
    by (simp add: backup_logged_failed)
  have d: "snd (performBackup w cfg tr') = None \<longrightarrow>
        backup_logged w cfg prefix tr' = fst (performBackup w cfg tr')"
    by (simp add: backup_logged_ok)
  have p: "os_MkdirAll w (tr @ [Logged ''Starting backup tool...'']) (OutputDir (Backup cfg)) = None
        \<and> Frequency (Backup cfg) \<le> 0 \<longrightarrow>
      snd (Start w cfg n tr) = Panicked ''non-positive interval for NewTicker''
      \<and> (\<exists>evs. fst (Start w cfg n tr) = tr @ evs \<and> schedule evs = [Mkdir_step, Dump_step])"
  proof
    assume h: "os_MkdirAll w (tr @ [Logged ''Starting backup tool...'']) (OutputDir (Backup cfg)) = None
        \<and> Frequency (Backup cfg) \<le> 0"
    then have s: "Start w cfg n tr =
        (initial_backup w cfg tr, Panicked ''non-positive interval for NewTicker'')"
      by (simp add: Start_mkdir_ok)
    obtain evs0 where "initial_backup w cfg tr = tr @ evs0" "schedule evs0 = [Mkdir_step, Dump_step]"
      using initial_backup_events [of w cfg tr] by blast
    then show "snd (Start w cfg n tr) = Panicked ''non-positive interval for NewTicker''
      \<and> (\<exists>evs. fst (Start w cfg n tr) = tr @ evs \<and> schedule evs = [Mkdir_step, Dump_step])"
      unfolding s by simp
  qed
  from a b p c d show ?thesis by (intro conjI)
qed

theorem Start_schedule_witness:
  "snd (Start (example_world dump_failure None) example_config 2 []) = Waiting
   \<and> (\<exists>evs. fst (Start (example_world dump_failure None) example_config 2 []) = [] @ evs
         \<and> schedule evs = [Mkdir_step, Dump_step, Ticker_step, Tick_step, Dump_step, Tick_step, Dump_step])
   \<and> fst (Start (example_world dump_failure None) example_config (Suc 2) [])
       = backup_logged (example_world dump_failure None) example_config ''Backup failed: ''
           (fst (Start (example_world dump_failure None) example_config 2 []) @ [Tick])
   \<and> backup_logged (example_world dump_failure None) example_config ''Backup failed: '' [Tick]
       = fst (performBackup (example_world dump_failure None) example_config [Tick])
           @ [Logged ''Backup failed: pg_dump failed: exit status 1, output: pg_dump: error: connection to server failed'']
   \<and> Start ((example_world dump_failure None)\<lparr>os_MkdirAll := \<lambda>tr dir. Some ''permission denied''\<rparr>)
         example_config 2 []
       = ([Logged ''Starting backup tool...'', MkdirAll ''/var/backups'' (Some ''permission denied'')],
          Returned (Some ''failed to create output directory: permission denied''))"
proof -
  let ?w = "example_world dump_failure None"
  let ?w' = "?w\<lparr>os_MkdirAll := \<lambda>tr dir. Some ''permission denied''\<rparr>"
  have dir: "OutputDir (Backup example_config) = ''/var/backups''"
    by (simp add: example_config_def)
  have "os_MkdirAll ?w ([] @ [Logged ''Starting backup tool...''])
          (OutputDir (Backup example_config)) = None \<and> 0 < Frequency (Backup example_config)"
    by (simp add: example_world_def example_config_def)
  moreover have "concat (replicate 2 [Tick_step, Dump_step]) = [Tick_step, Dump_step, Tick_step, Dump_step]"
    by (simp add: numeral_2_eq_2)
  ultimately have a: "snd (Start ?w example_config 2 []) = Waiting
   \<and> (\<exists>evs. fst (Start ?w example_config 2 []) = [] @ evs
         \<and> schedule evs = [Mkdir_step, Dump_step, Ticker_step, Tick_step, Dump_step, Tick_step, Dump_step])
   \<and> fst (Start ?w example_config (Suc 2) [])
       = backup_logged ?w example_config ''Backup failed: ''
           (fst (Start ?w example_config 2 []) @ [Tick])"
    using Start_schedule [where w = ?w and cfg = example_config and n = 2 and tr = "[]"]
    by simp
  have "snd (performBackup ?w example_config [Tick])
      = Some ''pg_dump failed: exit status 1, output: pg_dump: error: connection to server failed''"
    by (simp add: performBackup_example_failure)
  then have b: "backup_logged ?w example_config ''Backup failed: '' [Tick]
       = fst (performBackup ?w example_config [Tick])
           @ [Logged (''Backup failed: '' @ ''pg_dump failed: exit status 1, output: pg_dump: error: connection to server failed'')]"
    using Start_schedule [where w = ?w and cfg = example_config and tr' = "[Tick]"
        and prefix = "''Backup failed: ''"
        and e = "''pg_dump failed: exit status 1, output: pg_dump: error: connection to server failed''"]
    by blast
  have "os_MkdirAll ?w' ([] @ [Logged ''Starting backup tool...''])
          (OutputDir (Backup example_config)) = Some ''permission denied''"
    by simp
  then have "Start ?w' example_config 2 [] =
        ([] @ [Logged ''Starting backup tool...'',
               MkdirAll (OutputDir (Backup example_config)) (Some ''permission denied'')],
         Returned (Some (''failed to create output directory: '' @ ''permission denied'')))"
    using Start_schedule [where w = ?w' and cfg = example_config and n = 2 and tr = "[]"
        and e = "''permission denied''"]
    by blast
  then have c: "Start ?w' example_config 2 []
       = ([Logged ''Starting backup tool...'', MkdirAll ''/var/backups'' (Some ''permission denied'')],
          Returned (Some ''failed to create output directory: permission denied''))"
    unfolding dir by simp
  from b have b': "backup_logged ?w example_config ''Backup failed: '' [Tick]
       = fst (performBackup ?w example_config [Tick])
           @ [Logged ''Backup failed: pg_dump failed: exit status 1, output: pg_dump: error: connection to server failed'']"
    by simp
  from a b' c show ?thesis by blast
qed

text \<open>
  C8 as stated, for every interval, fails where the interval is not positive: with an
  interval of 0 and an output directory that could be created, \<^verbatim>\<open>Start\<close> ends in a panic
  after the first cycle and repeats nothing, however many ticks are awaited.
\<close>

theorem Start_stops_without_interval:
  "os_MkdirAll (example_world dump_success None) [Logged ''Starting backup tool...'']
       (OutputDir (Backup no_interval_config)) = None
   \<and> snd (Start (example_world dump_success None) no_interval_config 3 [])
       = Panicked ''non-positive interval for NewTicker''
   \<and> schedule (fst (Start (example_world dump_success None) no_interval_config 3 []))
       = [Mkdir_step, Dump_step]"
proof -
  let ?w = "example_world dump_success None"
  have m: "os_MkdirAll ?w ([] @ [Logged ''Starting backup tool...''])
      (OutputDir (Backup no_interval_config)) = None"
    by (simp add: example_world_def)
  have f: "Frequency (Backup no_interval_config) \<le> 0"
    by (simp add: no_interval_config_def)
  have s: "Start ?w no_interval_config 3 [] =
      (initial_backup ?w no_interval_config [], Panicked ''non-positive interval for NewTicker'')"
    using Start_mkdir_ok [OF m] f by simp
  obtain evs where "initial_backup ?w no_interval_config [] = [] @ evs"
      "schedule evs = [Mkdir_step, Dump_step]"
    using initial_backup_events [of ?w no_interval_config "[]"] by blast
  then have "schedule (fst (Start ?w no_interval_config 3 [])) = [Mkdir_step, Dump_step]"
    unfolding s by simp
  with m s show ?thesis by simp
qed

text \<open>
  C9. With an interval that is zero or negative, as it is when the configuration file omits
  \<^verbatim>\<open>frequency\<close>, and an output directory that could be created, \<^verbatim>\<open>Start\<close> panics on
  creating the ticker, whatever the number of ticks: it has created the directory and run
  the initial backup, and nothing after it.
\<close>

theorem Start_panics_without_interval:
  "(Frequency (Backup cfg) \<le> 0
      \<and> os_MkdirAll w (tr @ [Logged ''Starting backup tool...'']) (OutputDir (Backup cfg)) = None \<longrightarrow>
      Start w cfg n tr =
        (backup_logged w cfg ''Initial backup failed: ''
           (tr @ [Logged ''Starting backup tool...'', MkdirAll (OutputDir (Backup cfg)) None]),
         Panicked ''non-positive interval for NewTicker'')
      \<and> (\<exists>evs. fst (Start w cfg n tr) = tr @ evs \<and> schedule evs = [Mkdir_step, Dump_step]))
   \<and> Frequency (Backup (set_defaults (Unmarshal (doc\<lparr>yaml_frequency := None\<rparr>)))) = 0"
proof -
  have a: "Frequency (Backup cfg) \<le> 0
      \<and> os_MkdirAll w (tr @ [Logged ''Starting backup tool...'']) (OutputDir (Backup cfg)) = None \<longrightarrow>
      Start w cfg n tr =
        (backup_logged w cfg ''Initial backup failed: ''
           (tr @ [Logged ''Starting backup tool...'', MkdirAll (OutputDir (Backup cfg)) None]),
         Panicked ''non-positive interval for NewTicker'')
      \<and> (\<exists>evs. fst (Start w cfg n tr) = tr @ evs \<and> schedule evs = [Mkdir_step, Dump_step])"
  proof
    assume h: "Frequency (Backup cfg) \<le> 0
      \<and> os_MkdirAll w (tr @ [Logged ''Starting backup tool...'']) (OutputDir (Backup cfg)) = None"
    then have s: "Start w cfg n tr =
        (initial_backup w cfg tr, Panicked ''non-positive interval for NewTicker'')"
      by (simp add: Start_mkdir_ok)
    obtain evs0 where evs0: "initial_backup w cfg tr = tr @ evs0"
        "schedule evs0 = [Mkdir_step, Dump_step]"
      using initial_backup_events [of w cfg tr] by blast
    have "\<exists>evs. fst (Start w cfg n tr) = tr @ evs \<and> schedule evs = [Mkdir_step, Dump_step]"
      unfolding s fst_conv using evs0 by blast
    with s show "Start w cfg n tr =
        (backup_logged w cfg ''Initial backup failed: ''
           (tr @ [Logged ''Starting backup tool...'', MkdirAll (OutputDir (Backup cfg)) None]),
         Panicked ''non-positive interval for NewTicker'')
      \<and> (\<exists>evs. fst (Start w cfg n tr) = tr @ evs \<and> schedule evs = [Mkdir_step, Dump_step])"
      by (simp add: initial_backup_def)
  qed
  have b: "Frequency (Backup (set_defaults (Unmarshal (doc\<lparr>yaml_frequency := None\<rparr>)))) = 0"
    by (simp add: set_defaults_def Unmarshal_def int_or_zero_def Let_def)
  from a b show ?thesis by (intro conjI)
qed

theorem Start_panics_without_interval_witness:
  "snd (Start (example_world dump_success None) (set_defaults (Unmarshal example_doc)) 5 [])
     = Panicked ''non-positive interval for NewTicker''
   \<and> (\<exists>evs. fst (Start (example_world dump_success None) (set_defaults (Unmarshal example_doc)) 5 [])
         = [] @ evs \<and> schedule evs = [Mkdir_step, Dump_step])
   \<and> Frequency (Backup (set_defaults (Unmarshal example_doc))) = 0"
proof -
  let ?w = "example_world dump_success None"
  let ?cfg = "set_defaults (Unmarshal example_doc)"
  have f: "Frequency (Backup ?cfg) = 0"
    by (simp add: set_defaults_def Unmarshal_def example_doc_def int_or_zero_def string_or_zero_def Let_def)
  have m: "os_MkdirAll ?w ([] @ [Logged ''Starting backup tool...'']) (OutputDir (Backup ?cfg)) = None"
    by (simp add: example_world_def)
  from f m have h: "Frequency (Backup ?cfg) \<le> 0
      \<and> os_MkdirAll ?w ([] @ [Logged ''Starting backup tool...'']) (OutputDir (Backup ?cfg)) = None"
    by simp
  note th = Start_panics_without_interval [where w = ?w and cfg = ?cfg and n = 5 and tr = "[]"
      and doc = example_doc]
  from th h have s: "Start ?w ?cfg 5 [] =
        (backup_logged ?w ?cfg ''Initial backup failed: ''
           ([] @ [Logged ''Starting backup tool...'', MkdirAll (OutputDir (Backup ?cfg)) None]),
         Panicked ''non-positive interval for NewTicker'')"
    and e: "\<exists>evs. fst (Start ?w ?cfg 5 []) = [] @ evs \<and> schedule evs = [Mkdir_step, Dump_step]"
    by blast+
  from s have "snd (Start ?w ?cfg 5 []) = Panicked ''non-positive interval for NewTicker''"
    by simp
  with e f show ?thesis by (intro conjI)
qed

subsection \<open>The order of the file names\<close>

lemma time_Format_local:
  "local_sec t1 = local_sec t2 \<Longrightarrow> time_Format t1 = time_Format t2"
  by (simp add: time_Format_def time_Date_def time_Clock_def)

lemma filename_less_local:
  assumes lt: "local_sec t1 < local_sec t2"
    and y1: "0 \<le> fst (time_Date t1)" "fst (time_Date t1) \<le> 9999"
    and y2: "0 \<le> fst (time_Date t2)" "fst (time_Date t2) \<le> 9999"
  shows "filename cfg t1 < filename cfg t2"
proof -
  have "time_Format t1 < time_Format t2" using lt y1(1) y2(2) by (rule time_Format_less)
  moreover have "length (time_Format t1) = length (time_Format t2)"
    using y1 y2 by (simp add: length_time_Format)
  ultimately show ?thesis by (rule filename_less)
qed

text \<open>
  C7. For two instants in the years 0000 to 9999, the file names made for one database and
  one format are in the lexicographic order of the wall-clock readings of the two
  instants, second by second. So they are in the order of the instants whenever the later
  instant has the later reading, as it has when both are read with the same offset from
  UTC.
\<close>

theorem filenames_sort_by_time:
  assumes "0 \<le> fst (time_Date t1)" "fst (time_Date t1) \<le> 9999"
    and "0 \<le> fst (time_Date t2)" "fst (time_Date t2) \<le> 9999"
  shows "(filename cfg t1 < filename cfg t2) = (local_sec t1 < local_sec t2)
     \<and> (zone_offset (loc t1 (unix_sec t1)) = zone_offset (loc t2 (unix_sec t2)) \<longrightarrow>
          (filename cfg t1 < filename cfg t2) = (unix_sec t1 < unix_sec t2))"
proof -
  have a: "(filename cfg t1 < filename cfg t2) = (local_sec t1 < local_sec t2)"
  proof (cases "local_sec t1 < local_sec t2")
    case True
    with assms show ?thesis by (simp add: filename_less_local)
  next
    case False
    show ?thesis
    proof (cases "local_sec t1 = local_sec t2")
      case True
      then have "time_Format t1 = time_Format t2" by (rule time_Format_local)
      then have "filename cfg t1 = filename cfg t2" by (simp add: filename_def)
      with True show ?thesis by simp
    next
      case ne: False
      with False have "local_sec t2 < local_sec t1" by simp
      then have "filename cfg t2 < filename cfg t1"
        using assms by (intro filename_less_local) simp_all
      then have "\<not> filename cfg t1 < filename cfg t2" by simp
      with False show ?thesis by simp
    qed
  qed
  have "zone_offset (loc t1 (unix_sec t1)) = zone_offset (loc t2 (unix_sec t2)) \<longrightarrow>
          (local_sec t1 < local_sec t2) = (unix_sec t1 < unix_sec t2)"
    by (simp add: local_sec_def)
  with a show ?thesis by simp
qed

lemma time_Date_days_before_noon_1: "time_Date (days_before_noon 1) = (2024, 11, 2)"
proof -
  have "local_sec (days_before_noon 1) = 1730548800"
    by (simp add: local_sec_def days_before_noon_def UTC_def FixedZone_def)
  then show ?thesis
    unfolding time_Date_def unixEpochDays_def by (simp add: civil_of_days_values)
qed

lemma time_Date_before_fall_back: "time_Date before_fall_back = (2024, 11, 3)"
  unfolding time_Date_def local_sec_before_fall_back unixEpochDays_def
  by (simp add: civil_of_days_739192)

theorem filenames_sort_by_time_witness:
  "unix_sec (days_before_noon 1) < unix_sec noon
   \<and> filename example_config (days_before_noon 1) < filename example_config noon
   \<and> zone_offset (loc before_fall_back (unix_sec before_fall_back)) = - 14400
   \<and> zone_offset (loc week_after_fall_back (unix_sec week_after_fall_back)) = - 18000
   \<and> unix_sec before_fall_back < unix_sec week_after_fall_back
   \<and> filename example_config before_fall_back < filename example_config week_after_fall_back"
proof -
  have "zone_offset (loc (days_before_noon 1) (unix_sec (days_before_noon 1)))
      = zone_offset (loc noon (unix_sec noon))"
    by (simp add: days_before_noon_def noon_def UTC_def FixedZone_def)
  moreover have "0 \<le> fst (time_Date (days_before_noon 1))" "fst (time_Date (days_before_noon 1)) \<le> 9999"
    "0 \<le> fst (time_Date noon)" "fst (time_Date noon) \<le> 9999"
    by (simp_all add: time_Date_days_before_noon_1 time_Date_noon)
  ultimately have "(filename example_config (days_before_noon 1) < filename example_config noon)
      = (unix_sec (days_before_noon 1) < unix_sec noon)"
    using filenames_sort_by_time [of "days_before_noon 1" noon example_config] by blast
  moreover have u: "unix_sec (days_before_noon 1) < unix_sec noon"
    by (simp add: days_before_noon_def noon_def)
  ultimately have a: "filename example_config (days_before_noon 1) < filename example_config noon"
    by simp
  have "0 \<le> fst (time_Date before_fall_back)" "fst (time_Date before_fall_back) \<le> 9999"
    "0 \<le> fst (time_Date week_after_fall_back)" "fst (time_Date week_after_fall_back) \<le> 9999"
    by (simp_all add: time_Date_before_fall_back time_Date_week_after_fall_back)
  then have "(filename example_config before_fall_back < filename example_config week_after_fall_back)
      = (local_sec before_fall_back < local_sec week_after_fall_back)"
    using filenames_sort_by_time [of before_fall_back week_after_fall_back example_config] by blast
  then have b: "filename example_config before_fall_back < filename example_config week_after_fall_back"
    by (simp add: local_sec_before_fall_back local_sec_week_after_fall_back)
  have z: "zone_offset (loc before_fall_back (unix_sec before_fall_back)) = - 14400"
    "zone_offset (loc week_after_fall_back (unix_sec week_after_fall_back)) = - 18000"
    "unix_sec before_fall_back < unix_sec week_after_fall_back"
    by (simp_all add: before_fall_back_def week_after_fall_back_def New_York_def)
  from u a z b show ?thesis by (intro conjI)
qed

text \<open>
  C7 as stated, for every pair of instants, fails where the clocks go back: in New York
  on 2024-11-03, the name made at 05:30 UTC (01:30 local time) sorts after the name made
  forty minutes later, at 06:10 UTC (01:10 local time).
\<close>

theorem filenames_out_of_order_at_fall_back:
  "unix_sec before_fall_back < unix_sec after_fall_back
   \<and> filename example_config before_fall_back = ''shop_2024-11-03_01-30-00.dump''
   \<and> filename example_config after_fall_back = ''shop_2024-11-03_01-10-00.dump''
   \<and> filename example_config after_fall_back < filename example_config before_fall_back"
proof -
  have a: "filename example_config before_fall_back = ''shop_2024-11-03_01-30-00.dump''"
    by (simp add: filename_def time_Format_before_fall_back extension_def example_config_def)
  have b: "filename example_config after_fall_back = ''shop_2024-11-03_01-10-00.dump''"
    by (simp add: filename_def time_Format_after_fall_back extension_def example_config_def)
  have "unix_sec before_fall_back < unix_sec after_fall_back"
    by (simp add: before_fall_back_def after_fall_back_def)
  moreover have "filename example_config after_fall_back < filename example_config before_fall_back"
    unfolding a b by simp
  ultimately show ?thesis using a b by (intro conjI)
qed

text \<open>
  The year takes five digits from the year 10000 on, and the name of the first second of
  that year sorts before the name of the second before it.
\<close>

lemma filenames_out_of_order_at_year_10000:
  "unix_sec end_of_9999 < unix_sec start_of_10000
   \<and> filename example_config end_of_9999 = ''shop_9999-12-31_23-59-59.dump''
   \<and> filename example_config start_of_10000 = ''shop_10000-01-01_00-00-00.dump''
   \<and> filename example_config start_of_10000 < filename example_config end_of_9999"
proof -
  have l1: "local_sec end_of_9999 = 253402300799"
    by (simp add: local_sec_def end_of_9999_def UTC_def FixedZone_def)
  have l2: "local_sec start_of_10000 = 253402300800"
    by (simp add: local_sec_def start_of_10000_def UTC_def FixedZone_def)
  have v: "appendInt 9999 4 = ''9999''" "appendInt 10000 4 = ''10000''" "appendInt 31 2 = ''31''"
    "appendInt 23 2 = ''23''" "appendInt 59 2 = ''59''"
    by (simp_all add: appendInt_def digits_eval Let_def)
  have f1: "time_Format end_of_9999 = ''9999-12-31_23-59-59''"
    unfolding time_Format_def time_Date_def time_Clock_def l1 Let_def unixEpochDays_def
    by (simp add: civil_of_days_values layout_def appendInt_values v)
  have f2: "time_Format start_of_10000 = ''10000-01-01_00-00-00''"
    unfolding time_Format_def time_Date_def time_Clock_def l2 Let_def unixEpochDays_def
    by (simp add: civil_of_days_values layout_def appendInt_values v)
  have a: "filename example_config end_of_9999 = ''shop_9999-12-31_23-59-59.dump''"
    by (simp add: filename_def f1 extension_def example_config_def)
  have b: "filename example_config start_of_10000 = ''shop_10000-01-01_00-00-00.dump''"
    by (simp add: filename_def f2 extension_def example_config_def)
  have "unix_sec end_of_9999 < unix_sec start_of_10000"
    by (simp add: end_of_9999_def start_of_10000_def)
  moreover have "filename example_config start_of_10000 < filename example_config end_of_9999"
    unfolding a b by simp
  ultimately show ?thesis using a b by (intro conjI)
qed

end
